theory Spec2Isabelle
  imports Complex_Main "HOL-Library.Log_Nat" "HOL-Library.AList" "HOL-Library.Char_ord"
    "HOL-Library.List_Lexorder"
begin

section \<open>The backend process: states, configuration, observable effects\<close>

text \<open>
  The model follows \<open>process-manager\<close> (classes \<open>Process\<close>, \<open>ProcessGroup\<close>,
  \<open>ProcessManager\<close>) and \<open>config-loader\<close> (class \<open>ConfigLoader\<close>).
  JavaScript runs one synchronous segment at a time: an \<open>async\<close> method runs until its next
  \<open>await\<close>, and whatever else happens, happens between two such segments. Each method is
  therefore a function for its synchronous prefix plus a function that resumes it at an
  \<open>await\<close>, and a run of the program is a list of events, each one segment.
  What reaches the outside world is recorded in two ghost fields of the process: the
  \<open>stateChange\<close> events it emitted and the commands and signals it issued. Log lines are left
  out.
\<close>

datatype ProcessState = STOPPED | STARTING | READY | STOPPING | SHUTDOWN

datatype StopStrategy = IMMEDIATELY | WAIT_FOR_INFLIGHT

text \<open>
  The fields of a model's loaded configuration that the process and the manager read. A
  field that is absent or empty is the empty string or the empty list here (the code tests
  these fields for truthiness only, and both are falsy); \<open>cmd\<close> is a string.
\<close>

record ModelConfig =
  cmd :: string
  cmdStop :: string
  proxy :: string
  checkEndpoint :: string
  unloadAfter :: int
  model_aliases :: "string list"

text \<open>
  \<open>Spawn c pid\<close>: \<open>spawn\<close> of the command \<open>c\<close> gave the child \<open>pid\<close>;
  \<open>Exec t pid\<close>: \<open>exec\<close> of the stop command template \<open>t\<close> for the child \<open>pid\<close>;
  \<open>Kill pid\<close>: \<open>SIGTERM\<close> sent to the child; \<open>ArmTTL\<close>: \<open>startTTLCheck\<close> armed its timer.
\<close>

datatype effect = Spawn string nat | Exec string nat | Kill nat | ArmTTL

record Process =
  proc_id :: string
  config :: ModelConfig
  process :: "nat option"
  healthCheckTimeout :: int
  state :: ProcessState
  inFlightRequests :: int
  failedStartCount :: int
  lastRequestHandled :: int
  emitted :: "(ProcessState \<times> ProcessState) list"
  effects :: "effect list"

definition new_Process :: "string \<Rightarrow> int \<Rightarrow> ModelConfig \<Rightarrow> Process" where
  "new_Process i hct c =
     \<lparr>proc_id = i, config = c, process = None, healthCheckTimeout = hct, state = STOPPED,
      inFlightRequests = 0, failedStartCount = 0, lastRequestHandled = 0,
      emitted = [], effects = []\<rparr>"

definition getCurrentState :: "Process \<Rightarrow> ProcessState" where
  "getCurrentState p = state p"

definition setState :: "ProcessState \<Rightarrow> Process \<Rightarrow> Process" where
  "setState newState p =
     p\<lparr>state := newState, emitted := emitted p @ [(state p, newState)]\<rparr>"

subsection \<open>Suspension points and what the environment supplies at them\<close>

text \<open>
  One constructor for each \<open>await\<close> of \<open>start\<close> and \<open>stop\<close>: the poll of a coalesced caller
  (\<open>StartWait\<close>), the \<open>await\<close> of \<open>setState(STARTING)\<close> (\<open>StartSet\<close>), the 250 ms delay
  (\<open>StartDelay\<close>), a pending health probe and the pause after a failed one (both carrying
  \<open>checkStartTime\<close>), the \<open>await\<close> of \<open>setState(READY)\<close> and of \<open>setState(STOPPED)\<close> in the
  \<open>catch\<close> block; for \<open>stop\<close> the \<open>await\<close> of \<open>setState(STOPPING)\<close> and the poll of the
  in-flight counter.
\<close>

datatype cont =
    StartWait
  | StartSet
  | StartDelay
  | StartProbe int
  | StartSleep int
  | StartSetReady
  | StartSetStopped
  | StopSet StopStrategy
  | StopWait

datatype retval = RBool bool | RVoid

datatype outcome = Await cont | Return retval

text \<open>
  What a resumed segment reads from outside: \<open>now0\<close> is \<open>Date.now()\<close> at the assignment of
  \<open>checkStartTime\<close>, \<open>now\<close> is \<open>Date.now()\<close> in the loop condition, \<open>spawn_result\<close> is the
  pid of the spawned child (\<open>None\<close>: \<open>spawn\<close>, or the wiring of the child's streams and
  handlers after it, throws), \<open>url_ok\<close> tells whether \<open>new URL(checkEndpoint, proxy)\<close>
  succeeds, \<open>probe_result\<close> is the HTTP status of the health probe (\<open>None\<close>: the probe's
  promise is rejected). Times are milliseconds. A pid names one child: the environment does not
  give the same pid to two children of a process.
\<close>

record input =
  now0 :: int
  now :: int
  spawn_result :: "nat option"
  url_ok :: bool
  probe_result :: "nat option"

subsection \<open>start\<close>

text \<open>
  \<open>start\<close> is the method up to its first \<open>await\<close>. \<open>health_loop\<close> is the head of the
  health-check loop: the loop condition on the clock (past the deadline the loop ends and the
  method throws into its own \<open>catch\<close>), then the test that the state is still STARTING, then the
  probe. \<open>finish_start\<close> is the end of the \<open>try\<close> block: the TTL timer if \<open>unloadAfter\<close> is
  positive, and \<open>setState(READY)\<close>.
\<close>

definition start :: "Process \<Rightarrow> outcome \<times> Process" where
  "start p =
     (if state p = READY then (Return (RBool True), p)
      else if state p = STARTING then (Await StartWait, p)
      else if state p \<noteq> STOPPED \<and> state p \<noteq> STOPPING then (Return (RBool False), p)
      else (Await StartSet, setState STARTING p))"

definition health_loop :: "int \<Rightarrow> input \<Rightarrow> Process \<Rightarrow> outcome \<times> Process" where
  "health_loop checkStartTime i p =
     (if now i - checkStartTime < healthCheckTimeout p * 1000 then
        (if state p \<noteq> STARTING then (Return (RBool False), p)
         else (Await (StartProbe checkStartTime), p))
      else (Await StartSetStopped, setState STOPPED p))"

definition finish_start :: "Process \<Rightarrow> outcome \<times> Process" where
  "finish_start p =
     (Await StartSetReady,
      setState READY
        (if unloadAfter (config p) > 0 then p\<lparr>effects := effects p @ [ArmTTL]\<rparr> else p))"

subsection \<open>stop\<close>

text \<open>
  \<open>stop\<close> is the method up to its first \<open>await\<close>; \<open>stop_wait\<close> is the loop that waits for the
  in-flight counter to reach 0, followed by \<open>stopCommand\<close>.
\<close>

definition stopCommand :: "Process \<Rightarrow> Process" where
  "stopCommand p =
     (case process p of
        None \<Rightarrow> p
      | Some c \<Rightarrow>
          if cmdStop (config p) \<noteq> [] then p\<lparr>effects := effects p @ [Exec (cmdStop (config p)) c]\<rparr>
          else p\<lparr>effects := effects p @ [Kill c]\<rparr>)"

definition stop :: "StopStrategy \<Rightarrow> Process \<Rightarrow> outcome \<times> Process" where
  "stop strategy p =
     (if state p = STOPPED \<or> state p = STOPPING \<or> state p = SHUTDOWN then (Return RVoid, p)
      else (Await (StopSet strategy), setState STOPPING p))"

definition stop_wait :: "Process \<Rightarrow> outcome \<times> Process" where
  "stop_wait p =
     (if inFlightRequests p > 0 then (Await StopWait, p) else (Return RVoid, stopCommand p))"

subsection \<open>Resuming a suspended call\<close>

fun resume :: "cont \<Rightarrow> input \<Rightarrow> Process \<Rightarrow> outcome \<times> Process" where
  "resume StartWait i p =
     (if state p = STARTING then (Await StartWait, p)
      else (Return (RBool (state p = READY)), p))"
| "resume StartSet i p =
     (case spawn_result i of
        None \<Rightarrow> (Await StartSetStopped, setState STOPPED p)
      | Some c \<Rightarrow>
          (Await StartDelay,
           p\<lparr>process := Some c, effects := effects p @ [Spawn (cmd (config p)) c]\<rparr>))"
| "resume StartDelay i p =
     (if checkEndpoint (config p) \<noteq> ''none''
      then (if url_ok i then health_loop (now0 i) i p
            else (Await StartSetStopped, setState STOPPED p))
      else finish_start p)"
| "resume (StartProbe t0) i p =
     (if probe_result i = Some 200 then finish_start p else (Await (StartSleep t0), p))"
| "resume (StartSleep t0) i p = health_loop t0 i p"
| "resume StartSetReady i p = (Return (RBool True), p\<lparr>failedStartCount := 0\<rparr>)"
| "resume StartSetStopped i p = (Return (RBool False), p)"
| "resume (StopSet strategy) i p =
     (if strategy = WAIT_FOR_INFLIGHT then stop_wait p else (Return RVoid, stopCommand p))"
| "resume StopWait i p = stop_wait p"

subsection \<open>Child exit and in-flight accounting\<close>

definition handleProcessExit :: "Process \<Rightarrow> Process" where
  "handleProcessExit p =
     (case state p of
        STOPPING \<Rightarrow> setState STOPPED p
      | STARTING \<Rightarrow> setState STOPPED p
      | _ \<Rightarrow> setState STOPPED p)"

definition addInFlightRequest :: "int \<Rightarrow> Process \<Rightarrow> Process" where
  "addInFlightRequest t p =
     p\<lparr>inFlightRequests := inFlightRequests p + 1, lastRequestHandled := t\<rparr>"

definition removeInFlightRequest :: "Process \<Rightarrow> Process" where
  "removeInFlightRequest p =
     (let n = inFlightRequests p - 1 in p\<lparr>inFlightRequests := (if n < 0 then 0 else n)\<rparr>)"

section \<open>One process and the calls in progress on it\<close>

text \<open>
  \<open>tasks\<close> holds the calls of \<open>start\<close> and \<open>stop\<close> that are suspended at an \<open>await\<close>,
  \<open>returned\<close> the results of the calls that have returned, \<open>exited\<close> the children whose
  \<open>close\<close> event has been delivered. An event is one synchronous segment: a new call of
  \<open>start\<close> or \<open>stop\<close> (the tick of the TTL timer acts on the process only by such a call of
  \<open>stop\<close>), the resumption of a suspended call, the \<open>close\<close> event of a spawned child,
  the body that \<open>ProcessGroup.shutdown\<close> runs for the process, and the two in-flight
  operations.
\<close>

record sys =
  proc :: Process
  tasks :: "nat \<rightharpoonup> cont"
  returned :: "(nat \<times> retval) list"
  next_task :: nat
  exited :: "nat list"

datatype event =
    CallStart
  | CallStop StopStrategy
  | Resume nat input
  | ChildExit nat
  | GroupShutdown
  | AddInFlight int
  | RemoveInFlight

definition init_sys :: "Process \<Rightarrow> sys" where
  "init_sys p = \<lparr>proc = p, tasks = Map.empty, returned = [], next_task = 0, exited = []\<rparr>"

definition launch :: "outcome \<times> Process \<Rightarrow> sys \<Rightarrow> sys" where
  "launch r s =
     (case fst r of
        Await k \<Rightarrow>
          s\<lparr>proc := snd r, tasks := (tasks s)(next_task s \<mapsto> k), next_task := Suc (next_task s)\<rparr>
      | Return v \<Rightarrow>
          s\<lparr>proc := snd r, returned := returned s @ [(next_task s, v)],
            next_task := Suc (next_task s)\<rparr>)"

definition continue :: "nat \<Rightarrow> outcome \<times> Process \<Rightarrow> sys \<Rightarrow> sys" where
  "continue t r s =
     (case fst r of
        Await k \<Rightarrow> s\<lparr>proc := snd r, tasks := (tasks s)(t \<mapsto> k)\<rparr>
      | Return v \<Rightarrow>
          s\<lparr>proc := snd r, tasks := (tasks s)(t := None), returned := returned s @ [(t, v)]\<rparr>)"

definition spawned :: "nat \<Rightarrow> Process \<Rightarrow> bool" where
  "spawned c p = (\<exists>x \<in> set (effects p). case x of Spawn _ c' \<Rightarrow> c' = c | _ \<Rightarrow> False)"

fun step :: "event \<Rightarrow> sys \<Rightarrow> sys" where
  "step CallStart s = launch (start (proc s)) s"
| "step (CallStop strategy) s = launch (stop strategy (proc s)) s"
| "step (Resume t i) s =
     (case tasks s t of
        None \<Rightarrow> s
      | Some k \<Rightarrow> continue t (resume k i (proc s)) s)"
| "step (ChildExit c) s =
     (if spawned c (proc s) \<and> c \<notin> set (exited s)
      then s\<lparr>proc := handleProcessExit (proc s), exited := c # exited s\<rparr>
      else s)"
| "step GroupShutdown s =
     (let s' = launch (stop IMMEDIATELY (proc s)) s
      in s'\<lparr>proc := setState SHUTDOWN (proc s')\<rparr>)"
| "step (AddInFlight t) s = s\<lparr>proc := addInFlightRequest t (proc s)\<rparr>"
| "step RemoveInFlight s = s\<lparr>proc := removeInFlightRequest (proc s)\<rparr>"

fun run :: "event list \<Rightarrow> sys \<Rightarrow> sys" where
  "run [] s = s"
| "run (e # es) s = run es (step e s)"

section \<open>Concrete configurations used by the examples\<close>

definition demo_model :: ModelConfig where
  "demo_model =
     \<lparr>cmd = ''srv --port 5800'', cmdStop = [], proxy = ''http://localhost:5800'',
      checkEndpoint = ''/health'', unloadAfter = 0, model_aliases = []\<rparr>"

definition demo_input :: "nat option \<Rightarrow> nat option \<Rightarrow> int \<Rightarrow> input" where
  "demo_input sp pr t =
     \<lparr>now0 = t, now = t, spawn_result = sp, url_ok = True, probe_result = pr\<rparr>"

section \<open>Properties of one process\<close>

subsection \<open>stop on a stopped process\<close>

text \<open>
  C8. \<open>stop\<close> is a no-op when the state is STOPPED, STOPPING or SHUTDOWN, for either strategy:
  the call returns in the segment that made it, no call stays suspended, and the process is
  left as it was: same state, no \<open>stateChange\<close> event emitted, no stop command and no signal
  issued.
\<close>

theorem stop_is_noop_when_stopped:
  assumes "state (proc s) = STOPPED \<or> state (proc s) = STOPPING \<or> state (proc s) = SHUTDOWN"
  shows "step (CallStop strategy) s =
           s\<lparr>returned := returned s @ [(next_task s, RVoid)], next_task := Suc (next_task s)\<rparr>
         \<and> stop strategy (proc s) = (Return RVoid, proc s)
         \<and> state (proc (step (CallStop strategy) s)) = state (proc s)
         \<and> emitted (proc (step (CallStop strategy) s)) = emitted (proc s)
         \<and> effects (proc (step (CallStop strategy) s)) = effects (proc s)
         \<and> tasks (step (CallStop strategy) s) = tasks s"
  using assms by (auto simp: stop_def launch_def)

theorem stop_is_noop_when_stopped_witness:
  "state (proc (init_sys (new_Process ''m'' 15 demo_model))) = STOPPED \<and>
   proc (step (CallStop WAIT_FOR_INFLIGHT) (init_sys (new_Process ''m'' 15 demo_model))) =
     new_Process ''m'' 15 demo_model \<and>
   returned (step (CallStop WAIT_FOR_INFLIGHT) (init_sys (new_Process ''m'' 15 demo_model))) =
     [(0, RVoid)]"
  using stop_is_noop_when_stopped
          [of "init_sys (new_Process ''m'' 15 demo_model)" WAIT_FOR_INFLIGHT]
  by (simp add: init_sys_def new_Process_def launch_def stop_def)

subsection \<open>start on a process that is ready, starting or shut down\<close>

text \<open>
  C7. \<open>start\<close> is idempotent and coalescing. In READY the call returns \<open>true\<close> at once and
  the process is untouched (no child spawned). In STARTING the call spawns nothing and
  suspends as a waiter; a waiter that is resumed while the state is still STARTING changes
  nothing and keeps waiting, and at the first resumption that finds another state it returns
  \<open>true\<close> iff that state is READY. In a state that is none of STOPPED, STOPPING, STARTING, READY
  the call returns \<open>false\<close> at once.
\<close>

theorem start_idempotent_coalescing:
  "(state (proc s) = READY \<longrightarrow>
      step CallStart s =
        s\<lparr>returned := returned s @ [(next_task s, RBool True)], next_task := Suc (next_task s)\<rparr>) \<and>
   (state (proc s) = STARTING \<longrightarrow>
      step CallStart s =
        s\<lparr>tasks := (tasks s)(next_task s \<mapsto> StartWait), next_task := Suc (next_task s)\<rparr>) \<and>
   (tasks s t = Some StartWait \<and> state (proc s) = STARTING \<longrightarrow> step (Resume t i) s = s) \<and>
   (tasks s t = Some StartWait \<and> state (proc s) \<noteq> STARTING \<longrightarrow>
      step (Resume t i) s =
        s\<lparr>tasks := (tasks s)(t := None),
          returned := returned s @ [(t, RBool (state (proc s) = READY))]\<rparr>) \<and>
   (state (proc s) \<notin> {STOPPED, STOPPING, STARTING, READY} \<longrightarrow>
      step CallStart s =
        s\<lparr>returned := returned s @ [(next_task s, RBool False)], next_task := Suc (next_task s)\<rparr>)"
  by (auto simp: start_def launch_def continue_def fun_upd_idem)

theorem start_idempotent_coalescing_witness:
  "state (proc (init_sys ((new_Process ''m'' 15 demo_model)\<lparr>state := READY\<rparr>))) = READY \<and>
   returned (step CallStart (init_sys ((new_Process ''m'' 15 demo_model)\<lparr>state := READY\<rparr>))) =
     [(0, RBool True)] \<and>
   effects (proc (step CallStart
     (init_sys ((new_Process ''m'' 15 demo_model)\<lparr>state := READY\<rparr>)))) = [] \<and>
   tasks (step CallStart (init_sys ((new_Process ''m'' 15 demo_model)\<lparr>state := STARTING\<rparr>))) 0 =
     Some StartWait \<and>
   step (Resume 0 (demo_input None None 100))
     (step CallStart (init_sys ((new_Process ''m'' 15 demo_model)\<lparr>state := STARTING\<rparr>))) =
     step CallStart (init_sys ((new_Process ''m'' 15 demo_model)\<lparr>state := STARTING\<rparr>)) \<and>
   returned (step (Resume 0 (demo_input None None 100))
     ((step CallStart (init_sys ((new_Process ''m'' 15 demo_model)\<lparr>state := STARTING\<rparr>)))
        \<lparr>proc := (new_Process ''m'' 15 demo_model)\<lparr>state := STOPPED\<rparr>\<rparr>)) = [(0, RBool False)] \<and>
   returned (step CallStart (init_sys ((new_Process ''m'' 15 demo_model)\<lparr>state := SHUTDOWN\<rparr>))) =
     [(0, RBool False)]"
  using start_idempotent_coalescing
          [of "init_sys ((new_Process ''m'' 15 demo_model)\<lparr>state := READY\<rparr>)" 0
              "demo_input None None 100"]
        start_idempotent_coalescing
          [of "init_sys ((new_Process ''m'' 15 demo_model)\<lparr>state := STARTING\<rparr>)" 0
              "demo_input None None 100"]
        start_idempotent_coalescing
          [of "step CallStart (init_sys ((new_Process ''m'' 15 demo_model)\<lparr>state := STARTING\<rparr>))"
              0 "demo_input None None 100"]
        start_idempotent_coalescing
          [of "(step CallStart (init_sys ((new_Process ''m'' 15 demo_model)\<lparr>state := STARTING\<rparr>)))
                 \<lparr>proc := (new_Process ''m'' 15 demo_model)\<lparr>state := STOPPED\<rparr>\<rparr>"
              0 "demo_input None None 100"]
        start_idempotent_coalescing
          [of "init_sys ((new_Process ''m'' 15 demo_model)\<lparr>state := SHUTDOWN\<rparr>)" 0
              "demo_input None None 100"]
  by (simp add: init_sys_def new_Process_def launch_def start_def continue_def)

subsection \<open>State transitions\<close>

text \<open>
  \<open>legal_transition\<close> is the list of legal transitions as the specification gives it (section
  4.1). \<open>code_transition\<close> adds what the code does besides: \<open>start\<close> accepts a process that is
  STOPPING, \<open>stop\<close> accepts one that is STARTING, the child-exit handler and the \<open>catch\<close> block
  of \<open>start\<close> set STOPPED whatever the state is, and a \<open>start\<close> that gets past its health
  gate sets READY whatever the state has become in the meantime.
\<close>

definition legal_transition :: "ProcessState \<Rightarrow> ProcessState \<Rightarrow> bool" where
  "legal_transition a b =
     ((a, b) \<in> {(STOPPED, STARTING), (STARTING, READY), (STARTING, STOPPED), (READY, STOPPING),
                 (STOPPING, STOPPED), (STOPPED, SHUTDOWN), (READY, SHUTDOWN),
                 (STOPPING, SHUTDOWN)})"

definition code_transition :: "ProcessState \<Rightarrow> ProcessState \<Rightarrow> bool" where
  "code_transition a b =
     (legal_transition a b \<or>
      (a, b) \<in> {(STOPPING, STARTING), (STARTING, STOPPING),
                 (READY, STOPPED), (STOPPED, STOPPED),
                 (STOPPED, READY), (STOPPING, READY), (READY, READY)})"

definition transitions_ok :: "Process \<Rightarrow> bool" where
  "transitions_ok p = list_all (\<lambda>(a, b). a = SHUTDOWN \<or> code_transition a b) (emitted p)"

lemma transitions_ok_effects [simp]:
  "transitions_ok (p\<lparr>effects := e\<rparr>) = transitions_ok p"
  "transitions_ok (p\<lparr>process := c\<rparr>) = transitions_ok p"
  "transitions_ok (p\<lparr>failedStartCount := n\<rparr>) = transitions_ok p"
  "transitions_ok (p\<lparr>inFlightRequests := k\<rparr>) = transitions_ok p"
  "transitions_ok (p\<lparr>lastRequestHandled := k\<rparr>) = transitions_ok p"
  by (simp_all add: transitions_ok_def)

lemma setState_STOPPED_ok: "transitions_ok p \<Longrightarrow> transitions_ok (setState STOPPED p)"
  by (cases "state p")
     (simp_all add: transitions_ok_def setState_def code_transition_def legal_transition_def)

lemma setState_READY_ok: "transitions_ok p \<Longrightarrow> transitions_ok (setState READY p)"
  by (cases "state p")
     (simp_all add: transitions_ok_def setState_def code_transition_def legal_transition_def)

lemma start_ok: "transitions_ok p \<Longrightarrow> transitions_ok (snd (start p))"
  by (auto simp: start_def transitions_ok_def setState_def code_transition_def
                 legal_transition_def)

lemma stop_ok: "transitions_ok p \<Longrightarrow> transitions_ok (snd (stop st p))"
  by (cases "state p")
     (auto simp: stop_def transitions_ok_def setState_def code_transition_def
                 legal_transition_def)

lemma stopCommand_ok: "transitions_ok p \<Longrightarrow> transitions_ok (stopCommand p)"
  by (simp add: stopCommand_def split: option.splits)

lemma handleProcessExit_ok: "transitions_ok p \<Longrightarrow> transitions_ok (handleProcessExit p)"
  by (cases "state p") (simp_all add: handleProcessExit_def setState_STOPPED_ok)

lemma health_loop_ok: "transitions_ok p \<Longrightarrow> transitions_ok (snd (health_loop t i p))"
  by (simp add: health_loop_def setState_STOPPED_ok)

lemma finish_start_ok: "transitions_ok p \<Longrightarrow> transitions_ok (snd (finish_start p))"
  by (simp add: finish_start_def setState_READY_ok)

lemma stop_wait_ok: "transitions_ok p \<Longrightarrow> transitions_ok (snd (stop_wait p))"
  by (simp add: stop_wait_def stopCommand_ok)

lemma resume_ok: "transitions_ok p \<Longrightarrow> transitions_ok (snd (resume k i p))"
  by (cases k)
     (auto simp: health_loop_ok finish_start_ok stop_wait_ok stopCommand_ok setState_STOPPED_ok
           split: option.splits)

lemma shutdown_ok:
  "transitions_ok p \<Longrightarrow> transitions_ok (setState SHUTDOWN (snd (stop IMMEDIATELY p)))"
  by (cases "state p")
     (auto simp: stop_def setState_def transitions_ok_def code_transition_def legal_transition_def)

lemma proc_launch [simp]: "proc (launch r s) = snd r"
  by (simp add: launch_def split: outcome.splits)

lemma proc_continue [simp]: "proc (continue t r s) = snd r"
  by (simp add: continue_def split: outcome.splits)

lemma step_ok: "transitions_ok (proc s) \<Longrightarrow> transitions_ok (proc (step e s))"
  by (cases e)
     (auto simp: start_ok stop_ok resume_ok handleProcessExit_ok shutdown_ok Let_def
                 addInFlightRequest_def removeInFlightRequest_def
           split: option.splits)

lemma run_ok: "transitions_ok (proc s) \<Longrightarrow> transitions_ok (proc (run es s))"
  by (induction es arbitrary: s) (simp_all add: step_ok)

definition demo_shutdown_then_exit :: "event list" where
  "demo_shutdown_then_exit =
     [CallStart, Resume 0 (demo_input (Some 7) None 0), Resume 0 (demo_input None None 250),
      Resume 0 (demo_input None (Some 200) 300), Resume 0 (demo_input None None 300),
      GroupShutdown, Resume 1 (demo_input None None 400), ChildExit 7]"

definition demo_stop_while_starting :: "event list" where
  "demo_stop_while_starting = [CallStart, CallStop IMMEDIATELY, CallStart]"

definition demo_exit_during_delay :: "event list" where
  "demo_exit_during_delay =
     [CallStart, Resume 0 (demo_input (Some 7) None 0), ChildExit 7,
      Resume 0 (demo_input None None 250), Resume 0 (demo_input None None 250)]"

text \<open>
  C2, as stated, fails. A process that was READY when its group was shut down is moved to
  SHUTDOWN at once; when its child then exits, the handler's default branch moves it from
  SHUTDOWN to STOPPED. \<open>stop\<close> during STARTING gives STARTING to STOPPING, and \<open>start\<close> during
  STOPPING gives STOPPING to STARTING. With \<open>checkEndpoint\<close> \<open>none\<close>, a child that exits
  during the 250 ms delay gives STARTING to STOPPED and then STOPPED to READY.
  None of these is in the legal set.
\<close>

theorem transitions_counterexample:
  "emitted (proc (run demo_shutdown_then_exit (init_sys (new_Process ''m'' 15 demo_model)))) =
     [(STOPPED, STARTING), (STARTING, READY), (READY, STOPPING), (STOPPING, SHUTDOWN),
      (SHUTDOWN, STOPPED)] \<and>
   \<not> legal_transition SHUTDOWN STOPPED \<and>
   emitted (proc (run demo_stop_while_starting (init_sys (new_Process ''m'' 15 demo_model)))) =
     [(STOPPED, STARTING), (STARTING, STOPPING), (STOPPING, STARTING)] \<and>
   \<not> legal_transition STARTING STOPPING \<and> \<not> legal_transition STOPPING STARTING \<and>
   emitted (proc (run demo_exit_during_delay
     (init_sys (new_Process ''m'' 15 (demo_model\<lparr>checkEndpoint := ''none''\<rparr>))))) =
     [(STOPPED, STARTING), (STARTING, STOPPED), (STOPPED, READY)] \<and>
   \<not> legal_transition STOPPED READY"
  by (simp add: demo_shutdown_then_exit_def demo_stop_while_starting_def
        demo_exit_during_delay_def demo_input_def demo_model_def init_sys_def new_Process_def
        launch_def continue_def start_def stop_def setState_def stopCommand_def spawned_def
        handleProcessExit_def health_loop_def finish_start_def legal_transition_def)

text \<open>
  C2, amended. In every run of a process, every transition that leaves a state other than
  SHUTDOWN is a legal transition of section 4.1 or one of STOPPING to STARTING, STARTING to
  STOPPING, READY to STOPPED, STOPPED to STOPPED, STOPPED to READY, STOPPING to READY,
  READY to READY; and a call of \<open>start\<close> or of \<open>stop\<close> on a process in SHUTDOWN leaves the
  process as it is.
\<close>

theorem transitions_of_the_code:
  "(\<forall>(a, b) \<in> set (emitted (proc (run es (init_sys (new_Process i h c))))).
      a \<noteq> SHUTDOWN \<longrightarrow> code_transition a b) \<and>
   (state (proc s) = SHUTDOWN \<longrightarrow>
      proc (step CallStart s) = proc s \<and> proc (step (CallStop st) s) = proc s)"
proof -
  have "transitions_ok (proc (init_sys (new_Process i h c)))"
    by (simp add: transitions_ok_def init_sys_def new_Process_def)
  then have "transitions_ok (proc (run es (init_sys (new_Process i h c))))"
    by (rule run_ok)
  then show ?thesis
    by (auto simp: transitions_ok_def list_all_iff start_def stop_def)
qed


theorem transitions_of_the_code_witness:
  "(STARTING, STOPPING) \<in>
     set (emitted (proc (run demo_stop_while_starting (init_sys (new_Process ''m'' 15 demo_model))))) \<and>
   code_transition STARTING STOPPING \<and>
   state (proc (init_sys ((new_Process ''m'' 15 demo_model)\<lparr>state := SHUTDOWN\<rparr>))) = SHUTDOWN \<and>
   proc (step CallStart (init_sys ((new_Process ''m'' 15 demo_model)\<lparr>state := SHUTDOWN\<rparr>))) =
     (new_Process ''m'' 15 demo_model)\<lparr>state := SHUTDOWN\<rparr>"
  using transitions_of_the_code
          [of demo_stop_while_starting "''m''" 15 demo_model
              "init_sys ((new_Process ''m'' 15 demo_model)\<lparr>state := SHUTDOWN\<rparr>)" IMMEDIATELY]
  by (simp add: demo_stop_while_starting_def init_sys_def new_Process_def launch_def
        start_def stop_def setState_def code_transition_def)

subsection \<open>The in-flight counter\<close>

text \<open>
  \<open>open_requests es n\<close> counts, from \<open>n\<close>, the requests registered and not yet released along
  the events \<open>es\<close>: one more at each \<open>addInFlightRequest\<close>, one less, but never below 0, at each
  \<open>removeInFlightRequest\<close>. No other event counts.
\<close>

fun open_requests :: "event list \<Rightarrow> int \<Rightarrow> int" where
  "open_requests [] n = n"
| "open_requests (AddInFlight t # es) n = open_requests es (n + 1)"
| "open_requests (RemoveInFlight # es) n = open_requests es (max 0 (n - 1))"
| "open_requests (e # es) n = open_requests es n"


lemma inflight_start [simp]: "inFlightRequests (snd (start p)) = inFlightRequests p"
  by (simp add: start_def setState_def)
lemma inflight_stop [simp]: "inFlightRequests (snd (stop st p)) = inFlightRequests p"
  by (simp add: stop_def setState_def)
lemma inflight_stopCommand [simp]: "inFlightRequests (stopCommand p) = inFlightRequests p"
  by (simp add: stopCommand_def split: option.splits)
lemma inflight_setState [simp]: "inFlightRequests (setState x p) = inFlightRequests p"
  by (simp add: setState_def)
lemma inflight_exit [simp]: "inFlightRequests (handleProcessExit p) = inFlightRequests p"
  by (cases "state p") (simp_all add: handleProcessExit_def)
lemma inflight_resume [simp]: "inFlightRequests (snd (resume k i p)) = inFlightRequests p"
  by (cases k) (auto simp: health_loop_def finish_start_def stop_wait_def split: option.splits)

lemma inflight_run:
  "inFlightRequests (proc (run es s)) = open_requests es (inFlightRequests (proc s))"
proof (induction es arbitrary: s)
  case Nil
  then show ?case by simp
next
  case (Cons e es)
  show ?case
    by (cases e)
       (auto simp: Cons.IH Let_def addInFlightRequest_def removeInFlightRequest_def max_def
             split: option.splits)
qed

lemma open_requests_nonneg: "0 \<le> n \<Longrightarrow> 0 \<le> open_requests es n"
  by (induction es n rule: open_requests.induct) simp_all

text \<open>
  C6, amended. In every run of a process the in-flight counter is at least 0
  (\<open>removeInFlightRequest\<close> clamps at 0), and it is the number of requests registered and not
  yet released, whatever the state: no call of \<open>start\<close> or \<open>stop\<close>, no child exit and no
  shutdown changes it.
\<close>

theorem inflight_counter:
  "inFlightRequests (proc (run es (init_sys (new_Process i h c)))) = open_requests es 0 \<and>
   0 \<le> inFlightRequests (proc (run es (init_sys (new_Process i h c))))"
  by (simp add: inflight_run open_requests_nonneg init_sys_def new_Process_def)


theorem inflight_counter_witness:
  "inFlightRequests (proc (run [CallStart, AddInFlight 5, RemoveInFlight, RemoveInFlight,
      AddInFlight 6, GroupShutdown] (init_sys (new_Process ''m'' 15 demo_model)))) = 1"
  using inflight_counter
          [of "[CallStart, AddInFlight 5, RemoveInFlight, RemoveInFlight, AddInFlight 6,
                GroupShutdown]" "''m''" 15 demo_model]
  by simp

subsection \<open>A start whose health check times out\<close>

text \<open>
  The inputs of the health-check loop, round by round: each round resumes the pending probe
  with its result and then the pause after it with the clock read in the loop condition.
\<close>

fun probing :: "(input \<times> input) list \<Rightarrow> input list" where
  "probing [] = []"
| "probing ((a, b) # r) = a # b # probing r"

lemma run_append: "run (xs @ ys) s = run ys (run xs s)"
  by (induction xs arbitrary: s) simp_all

lemma sys_tasks_idem: "tasks s t = Some k \<Longrightarrow> s\<lparr>tasks := (tasks s)(t \<mapsto> k)\<rparr> = s"
  by (simp add: fun_upd_idem)

lemma probe_fail_step:
  assumes "tasks s t = Some (StartProbe t0)" "probe_result a \<noteq> Some 200"
  shows "step (Resume t a) s = s\<lparr>tasks := (tasks s)(t \<mapsto> StartSleep t0)\<rparr>"
  using assms by (simp add: continue_def)

lemma sleep_within_step:
  assumes "tasks s t = Some (StartSleep t0)" "state (proc s) = STARTING"
    "now b - t0 < healthCheckTimeout (proc s) * 1000"
  shows "step (Resume t b) s = s\<lparr>tasks := (tasks s)(t \<mapsto> StartProbe t0)\<rparr>"
  using assms by (simp add: continue_def health_loop_def)

lemma probing_rounds:
  assumes "tasks s t = Some (StartProbe t0)" "state (proc s) = STARTING"
    "\<forall>(a, b) \<in> set its. probe_result a \<noteq> Some 200 \<and>
        now b - t0 < healthCheckTimeout (proc s) * 1000"
  shows "run (map (Resume t) (probing its)) s = s"
  using assms
proof (induction its)
  case Nil
  then show ?case by simp
next
  case (Cons x its)
  obtain a b where x: "x = (a, b)" by (cases x)
  from Cons.prems x have a: "probe_result a \<noteq> Some 200"
    and b: "now b - t0 < healthCheckTimeout (proc s) * 1000" by auto
  have 1: "step (Resume t a) s = s\<lparr>tasks := (tasks s)(t \<mapsto> StartSleep t0)\<rparr>"
    using Cons.prems(1) a by (rule probe_fail_step)
  have 2: "step (Resume t b) (s\<lparr>tasks := (tasks s)(t \<mapsto> StartSleep t0)\<rparr>) = s"
    using sleep_within_step [of "s\<lparr>tasks := (tasks s)(t \<mapsto> StartSleep t0)\<rparr>" t t0 b]
      Cons.prems(1,2) b by (simp add: fun_upd_idem)
  have "run (map (Resume t) (probing (x # its))) s =
      run (map (Resume t) (probing its)) (step (Resume t b) (step (Resume t a) s))"
    by (simp add: x del: step.simps)
  also have "\<dots> = run (map (Resume t) (probing its)) s"
    by (simp only: 1 2)
  also have "\<dots> = s"
    using Cons by simp
  finally show ?case .
qed

lemma timeout_tail:
  assumes "tasks s t = Some (StartProbe t0)" "state (proc s) = STARTING"
    "probe_result ip \<noteq> Some 200" "\<not> now it - t0 < healthCheckTimeout (proc s) * 1000"
  shows "run (map (Resume t) [ip, it, ie]) s =
           s\<lparr>proc := setState STOPPED (proc s), tasks := (tasks s)(t := None),
             returned := returned s @ [(t, RBool False)]\<rparr>"
  using assms by (simp add: continue_def health_loop_def)

definition demo_timeout :: "event list" where
  "demo_timeout =
     CallStart # map (Resume 0)
       ([demo_input (Some 7) None 0, demo_input None None 250] @
        probing [(demo_input None None 5250, demo_input None None 10250)] @
        [demo_input None (Some 503) 10300, demo_input None None 15300,
         demo_input None None 15300])"

text \<open>
  The same start, except that the last probe, sent at 10.25 s, is answered 200 at 20.25 s.
\<close>

definition demo_late_ready :: "event list" where
  "demo_late_ready =
     CallStart # map (Resume 0)
       ([demo_input (Some 7) None 0, demo_input None None 250] @
        probing [(demo_input None None 5250, demo_input None None 10250)] @
        [demo_input None (Some 200) 20250, demo_input None None 20250])"

lemma ready_tail:
  assumes "tasks s t = Some (StartProbe t0)" "probe_result ip = Some 200"
  shows "run (map (Resume t) [ip, ie]) s =
           s\<lparr>proc := (proc s)
                 \<lparr>state := READY, failedStartCount := 0,
                  emitted := emitted (proc s) @ [(state (proc s), READY)],
                  effects := effects (proc s) @
                    (if unloadAfter (config (proc s)) > 0 then [ArmTTL] else [])\<rparr>,
             tasks := (tasks s)(t := None),
             returned := returned s @ [(t, RBool True)]\<rparr>"
  using assms by (simp add: continue_def finish_start_def setState_def)

text \<open>
  C4, as stated, fails in two ways. First, when the health check times out the child is not
  killed: with \<open>healthCheckTimeout\<close> 15, a failed probe, a probe answered 503 and the clock
  past the deadline, \<open>start\<close> returns \<open>false\<close> and the state is STOPPED, but the only effect
  on the outside world is the spawn of child 7: no signal is sent, no stop command is run, and
  the process still holds the handle of the running child. Second, the clock is read only in
  the loop condition, before a probe is sent, never when its answer arrives: in
  \<open>demo_late_ready\<close> the last probe is sent 10 s after the first check and answered 200 at
  20 s, five seconds past the deadline with the state STARTING all along, and \<open>start\<close> makes
  the process READY and returns \<open>true\<close>.
\<close>

theorem health_timeout_counterexample:
  "effects (proc (run demo_timeout (init_sys (new_Process ''m'' 15 demo_model)))) =
     [Spawn ''srv --port 5800'' 7] \<and>
   process (proc (run demo_timeout (init_sys (new_Process ''m'' 15 demo_model)))) = Some 7 \<and>
   exited (run demo_timeout (init_sys (new_Process ''m'' 15 demo_model))) = [] \<and>
   state (proc (run demo_timeout (init_sys (new_Process ''m'' 15 demo_model)))) = STOPPED \<and>
   returned (run demo_timeout (init_sys (new_Process ''m'' 15 demo_model))) = [(0, RBool False)] \<and>
   state (proc (run demo_late_ready (init_sys (new_Process ''m'' 15 demo_model)))) = READY \<and>
   returned (run demo_late_ready (init_sys (new_Process ''m'' 15 demo_model))) =
     [(0, RBool True)]"
  by (simp add: demo_timeout_def demo_late_ready_def demo_input_def demo_model_def init_sys_def
        new_Process_def launch_def continue_def start_def setState_def health_loop_def
        finish_start_def)

text \<open>
  C4, amended. A call of \<open>start\<close> on a process that is STOPPED or STOPPING, with a health
  endpoint, whose child is spawned and whose health URL is built, with nothing else happening
  to the process meanwhile (so that the state is STARTING throughout), and whose probes are
  sent while the loop condition reads the clock inside \<open>healthCheckTimeout\<close> seconds and
  are not answered 200, up to a last probe \<open>ip\<close>. If that last probe is not answered 200
  either and the loop condition then reads the clock at or past the deadline, the process
  goes to STARTING and then to STOPPED and \<open>start\<close> returns \<open>false\<close>; the child is neither
  signalled nor stopped. If the last probe is answered 200, whenever the answer arrives, the
  process goes to READY and \<open>start\<close> returns \<open>true\<close>. Both equations give the whole
  resulting state, the effects and the handle of the child included.
\<close>

theorem health_timeout:
  assumes "state (proc s) = STOPPED \<or> state (proc s) = STOPPING"
    and "checkEndpoint (config (proc s)) \<noteq> ''none''"
    and "spawn_result i1 = Some c"
    and "url_ok i2 \<and> now i2 - now0 i2 < healthCheckTimeout (proc s) * 1000"
    and "\<forall>(a, b) \<in> set its. probe_result a \<noteq> Some 200 \<and>
           now b - now0 i2 < healthCheckTimeout (proc s) * 1000"
  shows "(probe_result ip \<noteq> Some 200 \<and>
          \<not> now it - now0 i2 < healthCheckTimeout (proc s) * 1000 \<longrightarrow>
          run (CallStart # map (Resume (next_task s)) ([i1, i2] @ probing its @ [ip, it, ie])) s =
           s\<lparr>proc := (proc s)
                 \<lparr>process := Some c, state := STOPPED,
                  emitted := emitted (proc s) @ [(state (proc s), STARTING), (STARTING, STOPPED)],
                  effects := effects (proc s) @ [Spawn (cmd (config (proc s))) c]\<rparr>,
             tasks := (tasks s)(next_task s := None),
             returned := returned s @ [(next_task s, RBool False)],
             next_task := Suc (next_task s)\<rparr>) \<and>
         (probe_result ip = Some 200 \<longrightarrow>
          run (CallStart # map (Resume (next_task s)) ([i1, i2] @ probing its @ [ip, ie])) s =
           s\<lparr>proc := (proc s)
                 \<lparr>process := Some c, state := READY, failedStartCount := 0,
                  emitted := emitted (proc s) @ [(state (proc s), STARTING), (STARTING, READY)],
                  effects := effects (proc s) @ Spawn (cmd (config (proc s))) c #
                    (if unloadAfter (config (proc s)) > 0 then [ArmTTL] else [])\<rparr>,
             tasks := (tasks s)(next_task s := None),
             returned := returned s @ [(next_task s, RBool True)],
             next_task := Suc (next_task s)\<rparr>)"
proof -
  define t where "t = next_task s"
  define p1 where "p1 = (setState STARTING (proc s))
      \<lparr>process := Some c, effects := effects (proc s) @ [Spawn (cmd (config (proc s))) c]\<rparr>"
  define s1 where "s1 = s\<lparr>proc := p1, tasks := (tasks s)(t \<mapsto> StartProbe (now0 i2)),
      next_task := Suc t\<rparr>"
  have head: "run (CallStart # map (Resume t) [i1, i2]) s = s1"
    using assms(1-4)
    by (auto simp: t_def s1_def p1_def start_def launch_def continue_def health_loop_def
        setState_def)
  have s1: "tasks s1 t = Some (StartProbe (now0 i2))" "state (proc s1) = STARTING"
    "healthCheckTimeout (proc s1) = healthCheckTimeout (proc s)"
    by (simp_all add: s1_def p1_def setState_def)
  have rounds: "run (map (Resume t) (probing its)) s1 = s1"
    using s1(1,2) assms(5) unfolding s1(3) [symmetric] by (rule probing_rounds)
  have split: "CallStart # map (Resume t) ([i1, i2] @ probing its @ r) =
      (CallStart # map (Resume t) [i1, i2]) @ map (Resume t) (probing its) @ map (Resume t) r"
    for r
    by simp
  have through: "run (CallStart # map (Resume t) ([i1, i2] @ probing its @ r)) s =
      run (map (Resume t) r) s1" for r
    unfolding split by (simp only: run_append head rounds)
  have late: "run (CallStart # map (Resume t) ([i1, i2] @ probing its @ [ip, it, ie])) s =
      s\<lparr>proc := (proc s)
            \<lparr>process := Some c, state := STOPPED,
             emitted := emitted (proc s) @ [(state (proc s), STARTING), (STARTING, STOPPED)],
             effects := effects (proc s) @ [Spawn (cmd (config (proc s))) c]\<rparr>,
        tasks := (tasks s)(t := None),
        returned := returned s @ [(t, RBool False)],
        next_task := Suc t\<rparr>"
    if f: "probe_result ip \<noteq> Some 200"
      and d: "\<not> now it - now0 i2 < healthCheckTimeout (proc s) * 1000"
  proof -
    have "run (map (Resume t) [ip, it, ie]) s1 =
        s1\<lparr>proc := setState STOPPED (proc s1), tasks := (tasks s1)(t := None),
           returned := returned s1 @ [(t, RBool False)]\<rparr>"
      using s1(1,2) f d unfolding s1(3) [symmetric] by (rule timeout_tail)
    then show ?thesis
      unfolding through by (simp add: s1_def p1_def setState_def)
  qed
  have ok: "run (CallStart # map (Resume t) ([i1, i2] @ probing its @ [ip, ie])) s =
      s\<lparr>proc := (proc s)
            \<lparr>process := Some c, state := READY, failedStartCount := 0,
             emitted := emitted (proc s) @ [(state (proc s), STARTING), (STARTING, READY)],
             effects := effects (proc s) @ Spawn (cmd (config (proc s))) c #
               (if unloadAfter (config (proc s)) > 0 then [ArmTTL] else [])\<rparr>,
        tasks := (tasks s)(t := None),
        returned := returned s @ [(t, RBool True)],
        next_task := Suc t\<rparr>"
    if g: "probe_result ip = Some 200"
  proof -
    note ready_tail [OF s1(1) g, of ie]
    then show ?thesis
      unfolding through by (simp add: s1_def p1_def setState_def)
  qed
  from late ok show ?thesis
    unfolding t_def by blast
qed


theorem health_timeout_witness:
  "run demo_timeout (init_sys (new_Process ''m'' 15 demo_model)) =
     \<lparr>proc = (new_Process ''m'' 15 demo_model)
        \<lparr>process := Some 7, state := STOPPED,
         emitted := [(STOPPED, STARTING), (STARTING, STOPPED)],
         effects := [Spawn ''srv --port 5800'' 7]\<rparr>,
      tasks = Map.empty, returned = [(0, RBool False)], next_task = 1, exited = []\<rparr> \<and>
   run demo_late_ready (init_sys (new_Process ''m'' 15 demo_model)) =
     \<lparr>proc = (new_Process ''m'' 15 demo_model)
        \<lparr>process := Some 7, state := READY,
         emitted := [(STOPPED, STARTING), (STARTING, READY)],
         effects := [Spawn ''srv --port 5800'' 7]\<rparr>,
      tasks = Map.empty, returned = [(0, RBool True)], next_task = 1, exited = []\<rparr>"
proof -
  let ?s = "init_sys (new_Process ''m'' 15 demo_model)"
  have h1: "state (proc ?s) = STOPPED \<or> state (proc ?s) = STOPPING"
    by (simp add: init_sys_def new_Process_def)
  have h2: "checkEndpoint (config (proc ?s)) \<noteq> ''none''"
    by (simp add: init_sys_def new_Process_def demo_model_def)
  have h3: "spawn_result (demo_input (Some 7) None 0) = Some 7"
    by (simp add: demo_input_def)
  have h4: "url_ok (demo_input None None 250) \<and>
      now (demo_input None None 250) - now0 (demo_input None None 250)
      < healthCheckTimeout (proc ?s) * 1000"
    by (simp add: demo_input_def init_sys_def new_Process_def)
  have h5: "\<forall>(a, b) \<in> set [(demo_input None None 5250, demo_input None None 10250)].
      probe_result a \<noteq> Some 200 \<and>
      now b - now0 (demo_input None None 250) < healthCheckTimeout (proc ?s) * 1000"
    by (simp add: demo_input_def init_sys_def new_Process_def)
  have h6: "probe_result (demo_input None (Some 503) 10300) \<noteq> Some 200 \<and>
      \<not> now (demo_input None None 15300) - now0 (demo_input None None 250)
      < healthCheckTimeout (proc ?s) * 1000"
    by (simp add: demo_input_def init_sys_def new_Process_def)
  have h7: "probe_result (demo_input None (Some 200) 20250) = Some 200"
    by (simp add: demo_input_def)
  have n: "next_task ?s = 0"
    by (simp add: init_sys_def)
  have u: "\<not> unloadAfter (config (proc ?s)) > 0"
    by (simp add: init_sys_def new_Process_def demo_model_def)
  note r = health_timeout [OF h1 h2 h3 h4 h5]
  have a: "run demo_timeout ?s =
      ?s\<lparr>proc := (proc ?s)
            \<lparr>process := Some 7, state := STOPPED,
             emitted := emitted (proc ?s) @ [(state (proc ?s), STARTING), (STARTING, STOPPED)],
             effects := effects (proc ?s) @ [Spawn (cmd (config (proc ?s))) 7]\<rparr>,
          tasks := (tasks ?s)(next_task ?s := None),
          returned := returned ?s @ [(next_task ?s, RBool False)],
          next_task := Suc (next_task ?s)\<rparr>"
    unfolding demo_timeout_def
    using r [of "demo_input None (Some 503) 10300" "demo_input None None 15300"
        "demo_input None None 15300"] h6
    unfolding n by blast
  have b: "run demo_late_ready ?s =
      ?s\<lparr>proc := (proc ?s)
            \<lparr>process := Some 7, state := READY, failedStartCount := 0,
             emitted := emitted (proc ?s) @ [(state (proc ?s), STARTING), (STARTING, READY)],
             effects := effects (proc ?s) @ Spawn (cmd (config (proc ?s))) 7 #
               (if unloadAfter (config (proc ?s)) > 0 then [ArmTTL] else [])\<rparr>,
          tasks := (tasks ?s)(next_task ?s := None),
          returned := returned ?s @ [(next_task ?s, RBool True)],
          next_task := Suc (next_task ?s)\<rparr>"
    unfolding demo_late_ready_def
    using r [of "demo_input None (Some 200) 20250" "demo_input None None 20250"
        "demo_input None None 20250"] h7
    unfolding n by blast
  have a': "run demo_timeout ?s =
     \<lparr>proc = (new_Process ''m'' 15 demo_model)
        \<lparr>process := Some 7, state := STOPPED,
         emitted := [(STOPPED, STARTING), (STARTING, STOPPED)],
         effects := [Spawn ''srv --port 5800'' 7]\<rparr>,
      tasks = Map.empty, returned = [(0, RBool False)], next_task = 1, exited = []\<rparr>"
    unfolding a by (simp add: init_sys_def new_Process_def demo_model_def)
  have b': "run demo_late_ready ?s =
     \<lparr>proc = (new_Process ''m'' 15 demo_model)
        \<lparr>process := Some 7, state := READY,
         emitted := [(STOPPED, STARTING), (STARTING, READY)],
         effects := [Spawn ''srv --port 5800'' 7]\<rparr>,
      tasks = Map.empty, returned = [(0, RBool True)], next_task = 1, exited = []\<rparr>"
    unfolding b by (simp add: init_sys_def new_Process_def demo_model_def)
  from a' b' show ?thesis ..
qed

section \<open>Groups and the manager\<close>

text \<open>
  The loaded configuration as the manager reads it: the health-check timeout, handed to each
  \<open>Process\<close> as its number of seconds, the models, the groups and the aliases. \<open>models\<close> and
  \<open>groups\<close> are JavaScript objects used as dictionaries; they are association lists in the
  order in which \<open>Object.entries\<close> enumerates them, with the first entry of a key the one
  that counts.
\<close>

record GroupConfig =
  swap :: bool
  exclusive :: bool
  persistent :: bool
  members :: "string list"

record Config =
  healthCheckTimeout_cfg :: int
  models :: "(string \<times> ModelConfig) list"
  groups :: "(string \<times> GroupConfig) list"
  aliases :: "(string \<times> string) list"

text \<open>
  A \<open>ProcessGroup\<close> copies \<open>swap\<close>, \<open>exclusive\<close> and \<open>persistent\<close> from its group
  configuration and reads that configuration's \<open>members\<close> in \<open>hasMember\<close>, so the record
  extends \<open>GroupConfig\<close>. Each entry of \<open>processes\<close> is a \<open>Process\<close> together with the calls
  in progress on it. The manager's \<open>lastActiveGroup\<close> is a reference to one of the groups
  of \<open>processGroups\<close>; it is modelled by that group's id, the key under which the constructor
  stored the group.
\<close>

record ProcessGroup = GroupConfig +
  group_id :: string
  processes :: "(string \<times> sys) list"
  lastUsedProcess :: string

record ProcessManager =
  manager_config :: Config
  processGroups :: "(string \<times> ProcessGroup) list"
  shutdown :: bool
  lastActiveGroup :: "string option"

datatype error =
    CouldNotFindRealModelID string
  | CouldNotFindProcessGroup string
  | UnableToFindGroupConfiguration string
  | ModelConfigurationMissing string
  | ModelNotPartOfGroup string string
  | ProcessNotFound string
  | FailedToStartProcess string

subsection \<open>Constructors\<close>

text \<open>
  The \<open>Process\<close> constructor reads \<open>config.proxy\<close>, so a member without an entry in \<open>models\<close>
  makes the group constructor throw. The constructor also parses the proxy URL; the
  configuration comes from \<open>loadConfig\<close>, which has parsed every proxy with the same parser,
  so that parse is taken to succeed.
\<close>

fun new_processes ::
  "Config \<Rightarrow> string list \<Rightarrow> (string \<times> sys) list \<Rightarrow> error + (string \<times> sys) list" where
  "new_processes c [] acc = Inr acc"
| "new_processes c (modelID # ms) acc =
     (case map_of (models c) modelID of
        None \<Rightarrow> Inl (ModelConfigurationMissing modelID)
      | Some modelConfig \<Rightarrow>
          new_processes c ms
            (AList.update modelID
               (init_sys (new_Process modelID (healthCheckTimeout_cfg c) modelConfig)) acc))"

definition new_ProcessGroup :: "string \<Rightarrow> Config \<Rightarrow> error + ProcessGroup" where
  "new_ProcessGroup i c =
     (case map_of (groups c) i of
        None \<Rightarrow> Inl (UnableToFindGroupConfiguration i)
      | Some groupConfig \<Rightarrow>
          (case new_processes c (members groupConfig) [] of
             Inl e \<Rightarrow> Inl e
           | Inr ps \<Rightarrow>
               Inr \<lparr>swap = swap groupConfig, exclusive = exclusive groupConfig,
                    persistent = persistent groupConfig, members = members groupConfig,
                    group_id = i, processes = ps, lastUsedProcess = []\<rparr>))"

fun new_groups ::
  "Config \<Rightarrow> string list \<Rightarrow> (string \<times> ProcessGroup) list \<Rightarrow>
     error + (string \<times> ProcessGroup) list" where
  "new_groups c [] acc = Inr acc"
| "new_groups c (groupID # gs) acc =
     (case new_ProcessGroup groupID c of
        Inl e \<Rightarrow> Inl e
      | Inr processGroup \<Rightarrow> new_groups c gs (AList.update groupID processGroup acc))"

definition new_ProcessManager :: "Config \<Rightarrow> error + ProcessManager" where
  "new_ProcessManager c =
     (case new_groups c (map fst (groups c)) [] of
        Inl e \<Rightarrow> Inl e
      | Inr gs \<Rightarrow>
          Inr \<lparr>manager_config = c, processGroups = gs, shutdown = False,
               lastActiveGroup = None\<rparr>)"

subsection \<open>Lookups\<close>

definition hasMember :: "ProcessGroup \<Rightarrow> string \<Rightarrow> bool" where
  "hasMember g modelName = (modelName \<in> set (members g))"

definition findGroupByModelName :: "ProcessManager \<Rightarrow> string \<Rightarrow> ProcessGroup option" where
  "findGroupByModelName mgr modelName =
     map_option snd (find (\<lambda>(k, g). hasMember g modelName) (processGroups mgr))"

text \<open>
  The first statement of \<open>swapProcessGroup\<close>: the alias table first, then the model ids;
  \<open>||\<close> and the test \<open>!realModelName\<close> treat the empty string as absent.
\<close>

definition resolve :: "Config \<Rightarrow> string \<Rightarrow> string option" where
  "resolve c requestedModel =
     (let viaModels = (if map_of (models c) requestedModel \<noteq> None then Some requestedModel
                       else None);
          r = (case map_of (aliases c) requestedModel of
                 None \<Rightarrow> viaModels
               | Some a \<Rightarrow> if a \<noteq> [] then Some a else viaModels)
      in case r of None \<Rightarrow> None | Some n \<Rightarrow> if n = [] then None else Some n)"

subsection \<open>Events delivered while a call waits\<close>

text \<open>
  A manager call that is suspended at an \<open>await\<close> sees the manager change under it: calls
  on the processes are made and resumed, children exit, requests come and go, and other
  manager calls write \<open>lastUsedProcess\<close> and \<open>lastActiveGroup\<close>. The environment of a call is
  a list of slices, one for each time the call is suspended; a slice lists what happens before
  the call runs again: events of a process, addressed by group id and model id, and the two
  writes. A call that still waits when the slices are used up has not returned: its value is
  \<open>None\<close>.
\<close>

datatype manager_event =
    OnProcess string string event
  | SetLastUsedProcess string string
  | SetLastActiveGroup string

type_synonym slice = "manager_event list"

definition on_group ::
  "string \<Rightarrow> (ProcessGroup \<Rightarrow> ProcessGroup) \<Rightarrow> ProcessManager \<Rightarrow> ProcessManager" where
  "on_group g f mgr = mgr\<lparr>processGroups := AList.map_entry g f (processGroups mgr)\<rparr>"

definition on_process ::
  "string \<Rightarrow> string \<Rightarrow> (sys \<Rightarrow> sys) \<Rightarrow> ProcessManager \<Rightarrow> ProcessManager" where
  "on_process g m f mgr =
     on_group g (\<lambda>grp. grp\<lparr>processes := AList.map_entry m f (processes grp)\<rparr>) mgr"

definition get_group :: "ProcessManager \<Rightarrow> string \<Rightarrow> ProcessGroup option" where
  "get_group mgr g = map_of (processGroups mgr) g"

definition get_process :: "ProcessManager \<Rightarrow> string \<Rightarrow> string \<Rightarrow> sys option" where
  "get_process mgr g m =
     (case get_group mgr g of None \<Rightarrow> None | Some grp \<Rightarrow> map_of (processes grp) m)"

fun occur :: "manager_event \<Rightarrow> ProcessManager \<Rightarrow> ProcessManager" where
  "occur (OnProcess g m e) mgr = on_process g m (step e) mgr"
| "occur (SetLastUsedProcess g m) mgr = on_group g (\<lambda>grp. grp\<lparr>lastUsedProcess := m\<rparr>) mgr"
| "occur (SetLastActiveGroup g) mgr =
     (if get_group mgr g \<noteq> None then mgr\<lparr>lastActiveGroup := Some g\<rparr> else mgr)"

fun deliver :: "slice \<Rightarrow> ProcessManager \<Rightarrow> ProcessManager" where
  "deliver [] mgr = mgr"
| "deliver (x # r) mgr = deliver r (occur x mgr)"

fun await_until ::
  "(ProcessManager \<Rightarrow> bool) \<Rightarrow> slice list \<Rightarrow> ProcessManager \<Rightarrow>
     (ProcessManager \<times> slice list) option" where
  "await_until done [] mgr = (if done mgr then Some (mgr, []) else None)"
| "await_until done (sl # env) mgr =
     (if done mgr then Some (mgr, sl # env) else await_until done env (deliver sl mgr))"

text \<open>
  \<open>await\<close> of a promise always suspends the caller once, also when the promise is already
  resolved; a polling loop (\<open>while (c) await sleep\<close>) suspends only while its condition holds.
\<close>

definition await_promise ::
  "(ProcessManager \<Rightarrow> bool) \<Rightarrow> slice list \<Rightarrow> ProcessManager \<Rightarrow>
     (ProcessManager \<times> slice list) option" where
  "await_promise done env mgr =
     (case env of
        [] \<Rightarrow> await_until done [] mgr
      | sl # env' \<Rightarrow> await_until done env' (deliver sl mgr))"

definition has_returned :: "nat \<Rightarrow> sys \<Rightarrow> bool" where
  "has_returned t s = (t \<in> fst ` set (returned s))"

subsection \<open>Stopping a group, shutting down\<close>

text \<open>
  \<open>stopProcesses\<close> calls \<open>stop\<close> on every process of the group, in the order of the map, and
  awaits all the calls. \<open>calls\<close> names the call made on each process.
\<close>

definition stops_returned :: "string \<Rightarrow> (string \<times> nat) list \<Rightarrow> ProcessManager \<Rightarrow> bool" where
  "stops_returned g calls mgr =
     list_all (\<lambda>(m, t). case get_process mgr g m of None \<Rightarrow> True | Some s \<Rightarrow> has_returned t s)
       calls"

definition stopProcesses ::
  "StopStrategy \<Rightarrow> string \<Rightarrow> slice list \<Rightarrow> ProcessManager \<Rightarrow>
     (ProcessManager \<times> slice list) option" where
  "stopProcesses strategy g env mgr =
     (case get_group mgr g of
        None \<Rightarrow> Some (mgr, env)
      | Some grp \<Rightarrow>
          await_promise
            (stops_returned g (map (\<lambda>(m, s). (m, next_task s)) (processes grp)))
            env
            (on_group g
               (\<lambda>grp. grp\<lparr>processes :=
                    map (\<lambda>(m, s). (m, step (CallStop strategy) s)) (processes grp)\<rparr>)
               mgr))"

text \<open>
  \<open>ProcessGroup.shutdown\<close> and \<open>shutdownAll\<close> do all their work in the segment that calls
  them: for every process the prefix of \<open>stop(IMMEDIATELY)\<close> and then \<open>setState(SHUTDOWN)\<close>.
  The promises they await afterwards are those of \<open>setState\<close>, already resolved; the calls
  of \<open>stop\<close> stay suspended on their processes.
\<close>

definition group_shutdown :: "ProcessGroup \<Rightarrow> ProcessGroup" where
  "group_shutdown grp =
     grp\<lparr>processes := map (\<lambda>(m, s). (m, step GroupShutdown s)) (processes grp)\<rparr>"

definition shutdownAll :: "ProcessManager \<Rightarrow> ProcessManager" where
  "shutdownAll mgr =
     mgr\<lparr>shutdown := True,
         processGroups := map (\<lambda>(g, grp). (g, group_shutdown grp)) (processGroups mgr)\<rparr>"

subsection \<open>swapProcessGroup\<close>

text \<open>
  The group found for the model is held by reference in the source; here the call carries the
  record it found, for the fields that never change (\<open>group_id\<close> and the three flags), and
  reads what changes (\<open>lastUsedProcess\<close>, the processes) from the manager under that id. In a
  manager built by the constructor every id that is used names a group; where a lookup could
  give nothing, the step is skipped.
\<close>

definition clear_lastUsedProcess :: "string \<Rightarrow> ProcessManager \<Rightarrow> ProcessManager" where
  "clear_lastUsedProcess g mgr = on_group g (\<lambda>grp. grp\<lparr>lastUsedProcess := []\<rparr>) mgr"

definition cross_group_swap ::
  "ProcessGroup \<Rightarrow> slice list \<Rightarrow> ProcessManager \<Rightarrow> (ProcessManager \<times> slice list) option" where
  "cross_group_swap processGroup env mgr =
     (case lastActiveGroup mgr of
        None \<Rightarrow> Some (mgr, env)
      | Some l \<Rightarrow>
          (case get_group mgr l of
             None \<Rightarrow> Some (mgr, env)
           | Some lg \<Rightarrow>
               if l \<noteq> group_id processGroup \<and> \<not> persistent lg \<and> \<not> persistent processGroup
               then (case stopProcesses WAIT_FOR_INFLIGHT l env mgr of
                       None \<Rightarrow> None
                     | Some (mgr', env') \<Rightarrow>
                         Some (case lastActiveGroup mgr' of
                                 None \<Rightarrow> mgr'
                               | Some l' \<Rightarrow> clear_lastUsedProcess l' mgr',
                               env'))
               else Some (mgr, env)))"

fun stop_other_groups ::
  "string \<Rightarrow> string list \<Rightarrow> slice list \<Rightarrow> ProcessManager \<Rightarrow>
     (ProcessManager \<times> slice list) option" where
  "stop_other_groups target [] env mgr = Some (mgr, env)"
| "stop_other_groups target (groupId # gs) env mgr =
     (case get_group mgr groupId of
        None \<Rightarrow> stop_other_groups target gs env mgr
      | Some otherGroup \<Rightarrow>
          if groupId \<noteq> target \<and> \<not> persistent otherGroup
          then (case stopProcesses WAIT_FOR_INFLIGHT groupId env mgr of
                  None \<Rightarrow> None
                | Some (mgr', env') \<Rightarrow>
                    stop_other_groups target gs env' (clear_lastUsedProcess groupId mgr'))
          else stop_other_groups target gs env mgr)"

definition exclusive_mode ::
  "ProcessGroup \<Rightarrow> slice list \<Rightarrow> ProcessManager \<Rightarrow> (ProcessManager \<times> slice list) option" where
  "exclusive_mode processGroup env mgr =
     (if exclusive processGroup
      then stop_other_groups (group_id processGroup) (map fst (processGroups mgr)) env mgr
      else Some (mgr, env))"

definition call_returned :: "string \<Rightarrow> string \<Rightarrow> nat \<Rightarrow> ProcessManager \<Rightarrow> bool" where
  "call_returned g m t mgr =
     (case get_process mgr g m of None \<Rightarrow> True | Some s \<Rightarrow> has_returned t s)"

definition not_stopping :: "string \<Rightarrow> string \<Rightarrow> ProcessManager \<Rightarrow> bool" where
  "not_stopping g m mgr =
     (case get_process mgr g m of
        None \<Rightarrow> True
      | Some s \<Rightarrow> getCurrentState (proc s) \<noteq> STOPPING)"

definition within_group_swap ::
  "ProcessGroup \<Rightarrow> string \<Rightarrow> slice list \<Rightarrow> ProcessManager \<Rightarrow>
     (ProcessManager \<times> slice list) option" where
  "within_group_swap processGroup realModelName env mgr =
     (case get_group mgr (group_id processGroup) of
        None \<Rightarrow> Some (mgr, env)
      | Some g \<Rightarrow>
          if swap processGroup \<and> lastUsedProcess g \<noteq> realModelName
          then (if lastUsedProcess g \<noteq> []
                then (case map_of (processes g) (lastUsedProcess g) of
                        None \<Rightarrow> Some (mgr, env)
                      | Some oldProcess \<Rightarrow>
                          if getCurrentState (proc oldProcess) = READY
                          then (case await_promise
                                       (call_returned (group_id processGroup) (lastUsedProcess g)
                                          (next_task oldProcess))
                                       env
                                       (on_process (group_id processGroup) (lastUsedProcess g)
                                          (step (CallStop WAIT_FOR_INFLIGHT)) mgr) of
                                  None \<Rightarrow> None
                                | Some (mgr', env') \<Rightarrow>
                                    await_until
                                      (not_stopping (group_id processGroup) (lastUsedProcess g))
                                      env' mgr')
                          else Some (mgr, env))
                else Some (mgr, env))
          else Some (mgr, env))"

definition update_tracking :: "ProcessGroup \<Rightarrow> string \<Rightarrow> ProcessManager \<Rightarrow> ProcessManager" where
  "update_tracking processGroup realModelName mgr =
     on_group (group_id processGroup) (\<lambda>grp. grp\<lparr>lastUsedProcess := realModelName\<rparr>)
       (mgr\<lparr>lastActiveGroup := Some (group_id processGroup)\<rparr>)"

text \<open>
  The result is \<open>None\<close> while the call has not returned, \<open>Inl\<close> for a thrown error, and
  \<open>Inr\<close> of the returned pair: the group (its id) and the real model name.
\<close>

definition swapProcessGroup ::
  "slice list \<Rightarrow> string \<Rightarrow> ProcessManager \<Rightarrow>
     ((error + string \<times> string) \<times> ProcessManager \<times> slice list) option" where
  "swapProcessGroup env requestedModel mgr =
     (case resolve (manager_config mgr) requestedModel of
        None \<Rightarrow> Some (Inl (CouldNotFindRealModelID requestedModel), mgr, env)
      | Some realModelName \<Rightarrow>
          (case findGroupByModelName mgr realModelName of
             None \<Rightarrow> Some (Inl (CouldNotFindProcessGroup requestedModel), mgr, env)
           | Some processGroup \<Rightarrow>
               (case cross_group_swap processGroup env mgr of
                  None \<Rightarrow> None
                | Some (mgr1, env1) \<Rightarrow>
                    (case exclusive_mode processGroup env1 mgr1 of
                       None \<Rightarrow> None
                     | Some (mgr2, env2) \<Rightarrow>
                         (case within_group_swap processGroup realModelName env2 mgr2 of
                            None \<Rightarrow> None
                          | Some (mgr3, env3) \<Rightarrow>
                              Some (Inr (group_id processGroup, realModelName),
                                    update_tracking processGroup realModelName mgr3, env3))))))"

subsection \<open>ProcessGroup.proxyRequest\<close>

text \<open>
  The branch for a group with \<open>swap\<close>: stop the process used last if it is READY, call
  \<open>start\<close> on the requested one and await its result, fail if it is \<open>false\<close>, and record the
  model as used last. \<open>call_result\<close> reads the value a call has returned.
\<close>

definition call_result :: "string \<Rightarrow> string \<Rightarrow> nat \<Rightarrow> ProcessManager \<Rightarrow> retval option" where
  "call_result g m t mgr =
     (case get_process mgr g m of None \<Rightarrow> None | Some s \<Rightarrow> map_of (returned s) t)"

definition stop_last_used ::
  "ProcessGroup \<Rightarrow> ProcessGroup \<Rightarrow> slice list \<Rightarrow> ProcessManager \<Rightarrow>
     (ProcessManager \<times> slice list) option" where
  "stop_last_used processGroup g env mgr =
     (if lastUsedProcess g \<noteq> []
      then (case map_of (processes g) (lastUsedProcess g) of
              None \<Rightarrow> Some (mgr, env)
            | Some oldProcess \<Rightarrow>
                if getCurrentState (proc oldProcess) = READY
                then await_promise
                       (call_returned (group_id processGroup) (lastUsedProcess g)
                          (next_task oldProcess))
                       env
                       (on_process (group_id processGroup) (lastUsedProcess g)
                          (step (CallStop WAIT_FOR_INFLIGHT)) mgr)
                else Some (mgr, env))
      else Some (mgr, env))"

definition swap_in ::
  "ProcessGroup \<Rightarrow> string \<Rightarrow> slice list \<Rightarrow> ProcessManager \<Rightarrow>
     ((error + unit) \<times> ProcessManager \<times> slice list) option" where
  "swap_in processGroup modelID env mgr =
     (case get_group mgr (group_id processGroup) of
        None \<Rightarrow> Some (Inr (), mgr, env)
      | Some g \<Rightarrow>
          if swap processGroup \<and> lastUsedProcess g \<noteq> modelID
          then (case stop_last_used processGroup g env mgr of
                  None \<Rightarrow> None
                | Some (mgr1, env1) \<Rightarrow>
                    (case get_process mgr1 (group_id processGroup) modelID of
                       None \<Rightarrow> Some (Inl (ProcessNotFound modelID), mgr1, env1)
                     | Some target \<Rightarrow>
                         (case await_promise
                                 (call_returned (group_id processGroup) modelID
                                    (next_task target))
                                 env1
                                 (on_process (group_id processGroup) modelID (step CallStart)
                                    mgr1) of
                            None \<Rightarrow> None
                          | Some (mgr2, env2) \<Rightarrow>
                              if call_result (group_id processGroup) modelID (next_task target)
                                   mgr2 = Some (RBool True)
                              then Some (Inr (),
                                         on_group (group_id processGroup)
                                           (\<lambda>grp. grp\<lparr>lastUsedProcess := modelID\<rparr>) mgr2,
                                         env2)
                              else Some (Inl (FailedToStartProcess modelID), mgr2, env2))))
          else Some (Inr (), mgr, env))"

text \<open>
  After the swap the request is registered on the process, answered (the answer is the fixed
  501 of the source and is not modelled), and released, in one segment.
\<close>

definition proxyRequest ::
  "ProcessGroup \<Rightarrow> string \<Rightarrow> int \<Rightarrow> slice list \<Rightarrow> ProcessManager \<Rightarrow>
     ((error + unit) \<times> ProcessManager \<times> slice list) option" where
  "proxyRequest processGroup modelID t env mgr =
     (if \<not> hasMember processGroup modelID
      then Some (Inl (ModelNotPartOfGroup modelID (group_id processGroup)), mgr, env)
      else (case swap_in processGroup modelID env mgr of
              None \<Rightarrow> None
            | Some (Inl e, mgr', env') \<Rightarrow> Some (Inl e, mgr', env')
            | Some (Inr u, mgr', env') \<Rightarrow>
                Some (Inr (),
                      on_process (group_id processGroup) modelID
                        (run [AddInFlight t, RemoveInFlight]) mgr',
                      env')))"

definition demo_group :: "bool \<Rightarrow> string list \<Rightarrow> GroupConfig" where
  "demo_group p ms = \<lparr>swap = True, exclusive = True, persistent = p, members = ms\<rparr>"

definition demo_config :: Config where
  "demo_config =
     \<lparr>healthCheckTimeout_cfg = 15,
      models = [(''a'', demo_model), (''b'', demo_model), (''c'', demo_model),
                (''d'', demo_model)],
      groups = [(''G1'', demo_group False [''a'', ''b'']), (''G2'', demo_group True [''c'']),
                (''G3'', \<lparr>swap = False, exclusive = False, persistent = False,
                           members = [''d'']\<rparr>)],
      aliases = [(''alpha'', ''a'')]\<rparr>"

section \<open>Properties of the manager\<close>

subsection \<open>What a call leaves alone\<close>

text \<open>
  \<open>frame g m env mgr env' mgr'\<close>: between the manager \<open>mgr\<close> with environment \<open>env\<close> and the
  manager \<open>mgr'\<close> with the rest \<open>env'\<close>, the process of model \<open>m\<close> in group \<open>g\<close> has seen
  exactly the events that the consumed slices address to it, and nothing else.
\<close>


lemma get_group_on_group:
  "get_group (on_group g' f mgr) g =
     (if g = g' then map_option f (get_group mgr g) else get_group mgr g)"
  by (simp add: get_group_def on_group_def map_of_map_entry split: option.splits)

lemma get_process_on_process:
  "get_process (on_process g' m' f mgr) g m =
     (if g = g' \<and> m = m' then map_option f (get_process mgr g m) else get_process mgr g m)"
  by (auto simp: get_process_def on_process_def get_group_on_group map_of_map_entry
           split: option.splits)

fun events_for :: "string \<Rightarrow> string \<Rightarrow> slice \<Rightarrow> event list" where
  "events_for g m [] = []"
| "events_for g m (OnProcess g' m' e # r) =
     (if g' = g \<and> m' = m then e # events_for g m r else events_for g m r)"
| "events_for g m (x # r) = events_for g m r"

lemma events_for_append [simp]:
  "events_for g m (a @ b) = events_for g m a @ events_for g m b"
  by (induction g m a rule: events_for.induct) simp_all

lemma get_process_same_processes:
  "(\<And>grp. processes (f grp) = processes grp) \<Longrightarrow>
   get_process (on_group g' f mgr) g m = get_process mgr g m"
  by (auto simp: get_process_def get_group_on_group split: option.splits)

lemma get_process_lastActiveGroup [simp]:
  "get_process (mgr\<lparr>lastActiveGroup := x\<rparr>) g m = get_process mgr g m"
  by (simp add: get_process_def get_group_def)

lemma get_process_occur:
  "get_process (occur x mgr) g m = map_option (run (events_for g m [x])) (get_process mgr g m)"
proof (cases x)
  case (OnProcess g' m' e)
  then show ?thesis
    by (cases "get_process mgr g m") (auto simp: get_process_on_process)
next
  case (SetLastUsedProcess g' m')
  have "get_process (on_group g' (\<lambda>grp. grp\<lparr>lastUsedProcess := m'\<rparr>) mgr) g m =
      get_process mgr g m"
    by (rule get_process_same_processes) simp
  with SetLastUsedProcess show ?thesis
    by (cases "get_process mgr g m") simp_all
next
  case (SetLastActiveGroup g')
  then show ?thesis
    by (cases "get_process mgr g m") simp_all
qed

lemma get_process_deliver:
  "get_process (deliver sl mgr) g m = map_option (run (events_for g m sl)) (get_process mgr g m)"
proof (induction sl arbitrary: mgr)
  case Nil
  then show ?case by (simp add: option.map_ident)
next
  case (Cons x sl)
  have "events_for g m (x # sl) = events_for g m [x] @ events_for g m sl"
    using events_for_append [of g m "[x]" sl] by simp
  then show ?case
    by (cases "get_process mgr g m")
       (simp_all add: Cons.IH get_process_occur run_append del: events_for.simps)
qed

definition frame ::
  "string \<Rightarrow> string \<Rightarrow> slice list \<Rightarrow> ProcessManager \<Rightarrow> slice list \<Rightarrow> ProcessManager \<Rightarrow> bool" where
  "frame g m env mgr env' mgr' =
     (\<exists>c. env = c @ env' \<and>
          get_process mgr' g m = map_option (run (events_for g m (concat c))) (get_process mgr g m))"

lemma map_option_run_Nil [simp]: "map_option (run []) x = x"
  by (cases x) simp_all

lemma frame_same: "get_process mgr' g m = get_process mgr g m \<Longrightarrow> frame g m env mgr env mgr'"
  unfolding frame_def by (rule exI [of _ "[]"]) simp

lemma frame_trans:
  assumes "frame g m e0 m0 e1 m1" "frame g m e1 m1 e2 m2"
  shows "frame g m e0 m0 e2 m2"
proof -
  from assms(1) obtain c where c: "e0 = c @ e1"
    "get_process m1 g m = map_option (run (events_for g m (concat c))) (get_process m0 g m)"
    unfolding frame_def by blast
  from assms(2) obtain d where d: "e1 = d @ e2"
    "get_process m2 g m = map_option (run (events_for g m (concat d))) (get_process m1 g m)"
    unfolding frame_def by blast
  have "e0 = (c @ d) @ e2" using c(1) d(1) by simp
  moreover have "get_process m2 g m =
      map_option (run (events_for g m (concat (c @ d)))) (get_process m0 g m)"
    by (cases "get_process m0 g m") (simp_all add: c(2) d(2) run_append)
  ultimately show ?thesis unfolding frame_def by blast
qed

lemma frame_deliver: "frame g m (sl # env) mgr env (deliver sl mgr)"
  unfolding frame_def by (rule exI [of _ "[sl]"]) (simp add: get_process_deliver)

lemma frame_await_until:
  "await_until done env mgr = Some (mgr', env') \<Longrightarrow> frame g m env mgr env' mgr'"
proof (induction env arbitrary: mgr)
  case Nil
  then show ?case by (auto split: if_splits intro: frame_same)
next
  case (Cons sl env)
  show ?case
  proof (cases "done mgr")
    case True
    with Cons.prems show ?thesis by (auto intro: frame_same)
  next
    case False
    with Cons.prems have "await_until done env (deliver sl mgr) = Some (mgr', env')" by simp
    then have "frame g m env (deliver sl mgr) env' mgr'" by (rule Cons.IH)
    with frame_deliver show ?thesis by (rule frame_trans)
  qed
qed

lemma frame_await_promise:
  assumes that: "await_promise done env mgr = Some (mgr', env')"
  shows "frame g m env mgr env' mgr'"
proof (cases env)
  case Nil
  then show ?thesis using that by (simp add: await_promise_def frame_await_until)
next
  case (Cons sl env1)
  with that have "await_until done env1 (deliver sl mgr) = Some (mgr', env')"
    by (simp add: await_promise_def)
  then have "frame g m env1 (deliver sl mgr) env' mgr'" by (rule frame_await_until)
  with frame_deliver show ?thesis unfolding Cons by (rule frame_trans)
qed

lemma frame_pre:
  "get_process mgr1 g m = get_process mgr g m \<Longrightarrow> frame g m env mgr1 env' mgr' \<Longrightarrow>
   frame g m env mgr env' mgr'"
  by (simp add: frame_def)

lemma frame_post:
  "frame g m env mgr env' mgr1 \<Longrightarrow> get_process mgr' g m = get_process mgr1 g m \<Longrightarrow>
   frame g m env mgr env' mgr'"
  by (simp add: frame_def)

lemma get_process_other_group:
  "g \<noteq> g' \<Longrightarrow> get_process (on_group g' f mgr) g m = get_process mgr g m"
  by (simp add: get_process_def get_group_on_group)

lemma get_process_clear [simp]:
  "get_process (clear_lastUsedProcess l mgr) g m = get_process mgr g m"
  unfolding clear_lastUsedProcess_def by (rule get_process_same_processes) simp

lemma frame_stopProcesses:
  assumes "stopProcesses st l env mgr = Some (mgr', env')" "l \<noteq> g"
  shows "frame g m env mgr env' mgr'"
proof (cases "get_group mgr l")
  case None
  with assms show ?thesis by (auto simp: stopProcesses_def intro: frame_same)
next
  case (Some grp)
  let ?mgr1 = "on_group l (\<lambda>grp. grp\<lparr>processes :=
         map (\<lambda>(m, s). (m, step (CallStop st) s)) (processes grp)\<rparr>) mgr"
  from Some assms(1) have "await_promise
      (stops_returned l (map (\<lambda>(m, s). (m, next_task s)) (processes grp))) env ?mgr1 =
      Some (mgr', env')"
    by (simp add: stopProcesses_def)
  then have "frame g m env ?mgr1 env' mgr'" by (rule frame_await_promise)
  moreover have "get_process ?mgr1 g m = get_process mgr g m"
    using assms(2) by (simp add: get_process_other_group)
  ultimately show ?thesis by (rule frame_pre [rotated])
qed

lemma frame_cross_group:
  assumes "cross_group_swap pg env mgr = Some (mgr', env')"
  shows "frame (group_id pg) m env mgr env' mgr'"
  using assms
  by (auto simp: cross_group_swap_def split: option.splits if_splits
      intro: frame_same frame_post [OF frame_stopProcesses])

lemma frame_stop_other_groups:
  "stop_other_groups target gs env mgr = Some (mgr', env') \<Longrightarrow> frame target m env mgr env' mgr'"
proof (induction gs arbitrary: env mgr)
  case Nil
  then show ?case by (auto intro: frame_same)
next
  case (Cons groupId gs)
  show ?case
  proof (cases "get_group mgr groupId")
    case None
    with Cons show ?thesis by simp
  next
    case (Some otherGroup)
    show ?thesis
    proof (cases "groupId \<noteq> target \<and> \<not> persistent otherGroup")
      case False
      with Cons Some show ?thesis by auto
    next
      case True
      with Cons.prems Some obtain mgr1 env1 where
        1: "stopProcesses WAIT_FOR_INFLIGHT groupId env mgr = Some (mgr1, env1)" and
        2: "stop_other_groups target gs env1 (clear_lastUsedProcess groupId mgr1) =
              Some (mgr', env')"
        by (auto split: option.splits)
      from 1 True have "frame target m env mgr env1 mgr1" by (auto intro: frame_stopProcesses)
      then have "frame target m env mgr env1 (clear_lastUsedProcess groupId mgr1)"
        by (rule frame_post) simp
      moreover from 2 have "frame target m env1 (clear_lastUsedProcess groupId mgr1) env' mgr'"
        by (rule Cons.IH)
      ultimately show ?thesis by (rule frame_trans)
    qed
  qed
qed

lemma frame_exclusive:
  "exclusive_mode pg env mgr = Some (mgr', env') \<Longrightarrow> frame (group_id pg) m env mgr env' mgr'"
  by (auto simp: exclusive_mode_def split: if_splits
      intro: frame_same frame_stop_other_groups)

lemma frame_within:
  assumes "within_group_swap pg m env mgr = Some (mgr', env')"
  shows "frame (group_id pg) m env mgr env' mgr'"
proof -
  { fix g oldProcess mgr1 env1
    assume g: "lastUsedProcess g \<noteq> m"
      and 1: "await_promise (call_returned (group_id pg) (lastUsedProcess g) (next_task oldProcess))
                env (on_process (group_id pg) (lastUsedProcess g)
                       (step (CallStop WAIT_FOR_INFLIGHT)) mgr) = Some (mgr1, env1)"
      and 2: "await_until (not_stopping (group_id pg) (lastUsedProcess g)) env1 mgr1 =
                Some (mgr', env')"
    from 1 have "frame (group_id pg) m env
        (on_process (group_id pg) (lastUsedProcess g) (step (CallStop WAIT_FOR_INFLIGHT)) mgr)
        env1 mgr1"
      by (rule frame_await_promise)
    moreover have "get_process (on_process (group_id pg) (lastUsedProcess g)
        (step (CallStop WAIT_FOR_INFLIGHT)) mgr) (group_id pg) m = get_process mgr (group_id pg) m"
      using g by (simp add: get_process_on_process)
    ultimately have "frame (group_id pg) m env mgr env1 mgr1" by (rule frame_pre [rotated])
    from this frame_await_until [OF 2]
    have "frame (group_id pg) m env mgr env' mgr'" by (rule frame_trans)
  }
  then show ?thesis
    using assms
    by (auto simp: within_group_swap_def split: option.splits if_splits intro: frame_same)
qed

lemma get_process_update_tracking [simp]:
  "get_process (update_tracking pg r mgr) g m = get_process mgr g m"
proof -
  have "get_process (update_tracking pg r mgr) g m =
      get_process (mgr\<lparr>lastActiveGroup := Some (group_id pg)\<rparr>) g m"
    unfolding update_tracking_def by (rule get_process_same_processes) simp
  then show ?thesis by (simp add: get_process_def get_group_def)
qed

lemma frame_swap:
  assumes "swapProcessGroup env name mgr = Some (Inr (g, m), mgr', env')"
  shows "frame g m env mgr env' mgr'"
proof -
  from assms obtain pg mgr1 env1 mgr2 env2 mgr3 where
    r: "resolve (manager_config mgr) name = Some m" and
    f: "findGroupByModelName mgr m = Some pg" and g: "g = group_id pg" and
    1: "cross_group_swap pg env mgr = Some (mgr1, env1)" and
    2: "exclusive_mode pg env1 mgr1 = Some (mgr2, env2)" and
    3: "within_group_swap pg m env2 mgr2 = Some (mgr3, env')" and
    4: "mgr' = update_tracking pg m mgr3"
    by (auto simp: swapProcessGroup_def split: option.splits)
  have "frame g m env mgr env1 mgr1" unfolding g using 1 by (rule frame_cross_group)
  moreover have "frame g m env1 mgr1 env2 mgr2" unfolding g using 2 by (rule frame_exclusive)
  moreover have "frame g m env2 mgr2 env' mgr3" unfolding g using 3 by (rule frame_within)
  ultimately have "frame g m env mgr env' mgr3" by (blast intro: frame_trans)
  then show ?thesis unfolding 4 by (rule frame_post) simp
qed

subsection \<open>What a call of swapProcessGroup returns\<close>


lemma get_group_update_tracking:
  "get_group (update_tracking pg r mgr) g =
     (if g = group_id pg then map_option (\<lambda>grp. grp\<lparr>lastUsedProcess := r\<rparr>) (get_group mgr g)
      else get_group mgr g)"
  by (simp add: update_tracking_def get_group_on_group) (simp add: get_group_def)

lemma lastActiveGroup_on_group [simp]: "lastActiveGroup (on_group g f mgr) = lastActiveGroup mgr"
  by (simp add: on_group_def)

lemma swap_result:
  assumes "swapProcessGroup env name mgr = Some (res, mgr', env')"
    and "resolve (manager_config mgr) name = Some m"
    and "findGroupByModelName mgr m = Some pg"
  shows "res = Inr (group_id pg, m) \<and> lastActiveGroup mgr' = Some (group_id pg)"
  using assms
  by (auto simp: swapProcessGroup_def update_tracking_def split: option.splits)

text \<open>
  The layout of a manager: the keys of the group map, and for each group its id and the keys
  of its process map. No call and no event changes it.
\<close>

definition layout :: "ProcessManager \<Rightarrow> (string \<times> string \<times> string list) list" where
  "layout mgr = map (\<lambda>(k, g). (k, group_id g, map fst (processes g))) (processGroups mgr)"

lemma get_group_None_iff: "(get_group mgr k = None) = (k \<notin> fst ` set (layout mgr))"
  by (force simp: get_group_def layout_def map_of_eq_None_iff)

lemma map_fst_map_entry [simp]: "map fst (AList.map_entry k f xs) = map fst xs"
  by (induction xs) auto

lemma map_fst_map_values [simp]: "map fst (map (\<lambda>(m, s). (m, f s)) ps) = map fst ps"
  by (induction ps) auto

lemma layout_on_group:
  assumes "\<And>grp. group_id (f grp) = group_id grp"
    and "\<And>grp. map fst (processes (f grp)) = map fst (processes grp)"
  shows "layout (on_group g f mgr) = layout mgr"
proof -
  have "map (\<lambda>(k, g). (k, group_id g, map fst (processes g))) (AList.map_entry g f gs) =
      map (\<lambda>(k, g). (k, group_id g, map fst (processes g))) gs" for gs
    by (induction gs) (auto simp: assms)
  then show ?thesis by (simp add: layout_def on_group_def)
qed

lemma layout_on_process [simp]: "layout (on_process g m f mgr) = layout mgr"
  unfolding on_process_def by (rule layout_on_group) simp_all

lemma layout_lastUsedProcess [simp]:
  "layout (on_group g (\<lambda>grp. grp\<lparr>lastUsedProcess := m\<rparr>) mgr) = layout mgr"
  by (rule layout_on_group) simp_all

lemma layout_stops [simp]:
  "layout (on_group g (\<lambda>grp. grp\<lparr>processes := map (\<lambda>(m, s). (m, f s)) (processes grp)\<rparr>) mgr) =
     layout mgr"
  by (rule layout_on_group) (auto simp: case_prod_unfold)

lemma layout_lastActiveGroup [simp]: "layout (mgr\<lparr>lastActiveGroup := x\<rparr>) = layout mgr"
  by (simp add: layout_def)

lemma layout_occur [simp]: "layout (occur x mgr) = layout mgr"
  by (cases x) simp_all

lemma layout_deliver [simp]: "layout (deliver sl mgr) = layout mgr"
  by (induction sl arbitrary: mgr) auto

lemma layout_await_until:
  "await_until done env mgr = Some (mgr', env') \<Longrightarrow> layout mgr' = layout mgr"
proof (induction env arbitrary: mgr)
  case Nil
  then show ?case by (simp split: if_splits)
next
  case (Cons sl env)
  show ?case
  proof (cases "done mgr")
    case True
    with Cons.prems show ?thesis by simp
  next
    case False
    with Cons.prems have "await_until done env (deliver sl mgr) = Some (mgr', env')" by simp
    then have "layout mgr' = layout (deliver sl mgr)" by (rule Cons.IH)
    then show ?thesis by simp
  qed
qed

lemma layout_await_promise:
  assumes "await_promise done env mgr = Some (mgr', env')"
  shows "layout mgr' = layout mgr"
proof (cases env)
  case Nil
  with assms show ?thesis by (simp add: await_promise_def split: if_splits)
next
  case (Cons sl env1)
  with assms have "await_until done env1 (deliver sl mgr) = Some (mgr', env')"
    by (simp add: await_promise_def)
  then have "layout mgr' = layout (deliver sl mgr)" by (rule layout_await_until)
  then show ?thesis by simp
qed

lemma layout_stopProcesses:
  assumes "stopProcesses st l env mgr = Some (mgr', env')"
  shows "layout mgr' = layout mgr"
proof (cases "get_group mgr l")
  case None
  with assms show ?thesis by (simp add: stopProcesses_def)
next
  case (Some grp)
  with assms have "layout mgr' = layout (on_group l (\<lambda>grp. grp\<lparr>processes :=
         map (\<lambda>(m, s). (m, step (CallStop st) s)) (processes grp)\<rparr>) mgr)"
    by (simp add: stopProcesses_def del: layout_stops) (rule layout_await_promise)
  then show ?thesis by simp
qed

lemma layout_clear [simp]: "layout (clear_lastUsedProcess l mgr) = layout mgr"
  by (simp add: clear_lastUsedProcess_def)

lemma layout_cross_group:
  "cross_group_swap pg env mgr = Some (mgr', env') \<Longrightarrow> layout mgr' = layout mgr"
  by (auto simp: cross_group_swap_def split: option.splits if_splits
      dest!: layout_stopProcesses)

lemma layout_stop_other_groups:
  "stop_other_groups target gs env mgr = Some (mgr', env') \<Longrightarrow> layout mgr' = layout mgr"
proof (induction gs arbitrary: env mgr)
  case Nil
  then show ?case by simp
next
  case (Cons groupId gs)
  show ?case
  proof (cases "get_group mgr groupId")
    case None
    with Cons show ?thesis by simp
  next
    case (Some otherGroup)
    show ?thesis
    proof (cases "groupId \<noteq> target \<and> \<not> persistent otherGroup")
      case False
      with Cons Some show ?thesis by auto
    next
      case True
      with Cons.prems Some obtain mgr1 env1 where
        1: "stopProcesses WAIT_FOR_INFLIGHT groupId env mgr = Some (mgr1, env1)" and
        2: "stop_other_groups target gs env1 (clear_lastUsedProcess groupId mgr1) =
              Some (mgr', env')"
        by (auto split: option.splits)
      from Cons.IH [OF 2] layout_stopProcesses [OF 1] show ?thesis by simp
    qed
  qed
qed

lemma layout_exclusive:
  "exclusive_mode pg env mgr = Some (mgr', env') \<Longrightarrow> layout mgr' = layout mgr"
  by (auto simp: exclusive_mode_def split: if_splits dest!: layout_stop_other_groups)

lemma layout_within:
  assumes "within_group_swap pg m env mgr = Some (mgr', env')"
  shows "layout mgr' = layout mgr"
proof -
  { fix g oldProcess mgr1 env1
    assume 1: "await_promise (call_returned (group_id pg) (lastUsedProcess g) (next_task oldProcess))
                env (on_process (group_id pg) (lastUsedProcess g)
                       (step (CallStop WAIT_FOR_INFLIGHT)) mgr) = Some (mgr1, env1)"
      and 2: "await_until (not_stopping (group_id pg) (lastUsedProcess g)) env1 mgr1 =
                Some (mgr', env')"
    from layout_await_promise [OF 1] layout_await_until [OF 2]
    have "layout mgr' = layout mgr" by simp
  }
  then show ?thesis
    using assms
    by (auto simp: within_group_swap_def split: option.splits if_splits)
qed

lemma swap_lastUsedProcess:
  assumes "swapProcessGroup env name mgr = Some (Inr (g, m), mgr', env')"
    and "get_group mgr g \<noteq> None"
  shows "map_option lastUsedProcess (get_group mgr' g) = Some m"
proof -
  from assms obtain pg mgr1 env1 mgr2 env2 mgr3 where
    g: "g = group_id pg" and
    1: "cross_group_swap pg env mgr = Some (mgr1, env1)" and
    2: "exclusive_mode pg env1 mgr1 = Some (mgr2, env2)" and
    3: "within_group_swap pg m env2 mgr2 = Some (mgr3, env')" and
    4: "mgr' = update_tracking pg m mgr3"
    by (auto simp: swapProcessGroup_def split: option.splits)
  from assms(2) layout_cross_group [OF 1] layout_exclusive [OF 2]
    layout_within [OF 3]
  have "get_group mgr3 g \<noteq> None" by (simp add: get_group_None_iff)
  then show ?thesis by (auto simp: 4 g get_group_update_tracking)
qed

subsection \<open>A manager in which nothing is running\<close>

text \<open>
  \<open>wf_manager\<close>: the maps of the manager have one entry for each key and every group is stored
  under its own id, as the constructors build them. \<open>quiet\<close>: no process is STARTING or READY,
  so that every \<open>stop\<close> returns at once and a swap has nothing to wait for.
\<close>

definition wf_manager :: "ProcessManager \<Rightarrow> bool" where
  "wf_manager mgr =
     (distinct (map fst (processGroups mgr)) \<and>
      list_all (\<lambda>(k, g). group_id g = k \<and> distinct (map fst (processes g))) (processGroups mgr))"

definition quiet :: "ProcessManager \<Rightarrow> bool" where
  "quiet mgr =
     list_all (\<lambda>(k, g). list_all (\<lambda>(i, s). state (proc s) \<noteq> STARTING \<and> state (proc s) \<noteq> READY)
                          (processes g))
       (processGroups mgr)"

definition quiet_group :: "ProcessGroup \<Rightarrow> bool" where
  "quiet_group g =
     list_all (\<lambda>(i, s). state (proc s) \<noteq> STARTING \<and> state (proc s) \<noteq> READY) (processes g)"

lemma quiet_alt: "quiet mgr = list_all (\<lambda>(k, g). quiet_group g) (processGroups mgr)"
  by (simp add: quiet_def quiet_group_def)

lemma get_group_mem: "get_group mgr k = Some g \<Longrightarrow> (k, g) \<in> set (processGroups mgr)"
  by (simp add: get_group_def map_of_SomeD)

lemma quiet_get_group: "quiet mgr \<Longrightarrow> get_group mgr k = Some g \<Longrightarrow> quiet_group g"
  by (auto simp: quiet_alt list_all_iff dest!: get_group_mem)

lemma list_all_map_entry:
  "list_all P xs \<Longrightarrow> (\<And>v. P (k, v) \<Longrightarrow> P (k, f v)) \<Longrightarrow> list_all P (AList.map_entry k f xs)"
  by (induction xs) auto

lemma quiet_on_group:
  "quiet mgr \<Longrightarrow> (\<And>g. quiet_group g \<Longrightarrow> quiet_group (f g)) \<Longrightarrow> quiet (on_group k f mgr)"
  unfolding quiet_alt on_group_def by (simp, rule list_all_map_entry) auto

lemma step_stop_quiet:
  "state (proc s) \<noteq> STARTING \<Longrightarrow> state (proc s) \<noteq> READY \<Longrightarrow>
   step (CallStop st) s =
     s\<lparr>returned := returned s @ [(next_task s, RVoid)], next_task := Suc (next_task s)\<rparr>"
  by (cases "state (proc s)") (simp_all add: stop_def launch_def)

lemma step_stop_quiet_state:
  "state (proc s) \<noteq> STARTING \<and> state (proc s) \<noteq> READY \<Longrightarrow>
   state (proc (step (CallStop st) s)) = state (proc s) \<and>
   has_returned (next_task s) (step (CallStop st) s)"
  by (simp add: step_stop_quiet has_returned_def del: step.simps)

lemma quiet_group_stop:
  "quiet_group g \<Longrightarrow>
   quiet_group (g\<lparr>processes := map (\<lambda>(m, s). (m, step (CallStop st) s)) (processes g)\<rparr>)"
  by (auto simp: quiet_group_def list_all_iff step_stop_quiet_state simp del: step.simps)

lemma stops_returned_quiet:
  assumes "get_group mgr l = Some grp" "quiet_group grp" "distinct (map fst (processes grp))"
  shows "stops_returned l (map (\<lambda>(m, s). (m, next_task s)) (processes grp))
           (on_group l (\<lambda>grp. grp\<lparr>processes :=
               map (\<lambda>(m, s). (m, step (CallStop st) s)) (processes grp)\<rparr>) mgr)"
proof -
  { fix m s assume ms: "(m, s) \<in> set (processes grp)"
    then have "map_of (processes grp) m = Some s"
      using assms(3) by simp
    then have "get_process (on_group l (\<lambda>grp. grp\<lparr>processes :=
               map (\<lambda>(m, s). (m, step (CallStop st) s)) (processes grp)\<rparr>) mgr) l m =
             Some (step (CallStop st) s)"
      using assms(1) by (simp add: get_process_def get_group_on_group map_of_map)
    moreover have "has_returned (next_task s) (step (CallStop st) s)"
      using assms(2) ms by (auto simp: quiet_group_def list_all_iff step_stop_quiet_state
          simp del: step.simps)
    ultimately have "case get_process (on_group l (\<lambda>grp. grp\<lparr>processes :=
               map (\<lambda>(m, s). (m, step (CallStop st) s)) (processes grp)\<rparr>) mgr) l m of
               None \<Rightarrow> True | Some s' \<Rightarrow> has_returned (next_task s) s'"
      by simp }
  then show ?thesis
    by (auto simp: stops_returned_def list_all_iff)
qed

lemma wf_get_group:
  "wf_manager mgr \<Longrightarrow> get_group mgr k = Some g \<Longrightarrow>
   group_id g = k \<and> distinct (map fst (processes g))"
  by (auto simp: wf_manager_def list_all_iff dest!: get_group_mem)

lemma wf_on_group:
  assumes "wf_manager mgr"
    "\<And>g. group_id (f g) = group_id g"
    "\<And>g. map fst (processes (f g)) = map fst (processes g)"
  shows "wf_manager (on_group k f mgr)"
proof -
  have "list_all (\<lambda>(k, g). group_id g = k \<and> distinct (map fst (processes g)))
          (AList.map_entry k f (processes_groups))"
    if "list_all (\<lambda>(k, g). group_id g = k \<and> distinct (map fst (processes g))) processes_groups"
    for processes_groups
    using that by (rule list_all_map_entry) (simp add: assms(2,3))
  then show ?thesis
    using assms(1) by (simp add: wf_manager_def on_group_def)
qed

lemma map_fst_map_step:
  "map fst (processes (grp\<lparr>processes := map (\<lambda>(m, s). (m, f s)) (processes grp)\<rparr>)) =
   map fst (processes grp)"
  by (induction "processes grp") auto

lemma stopProcesses_quiet:
  assumes "wf_manager mgr" "quiet mgr"
  shows "\<exists>mgr'. stopProcesses st l [] mgr = Some (mgr', []) \<and> wf_manager mgr' \<and> quiet mgr'"
proof (cases "get_group mgr l")
  case None
  with assms show ?thesis by (simp add: stopProcesses_def)
next
  case (Some grp)
  let ?f = "\<lambda>grp. grp\<lparr>processes := map (\<lambda>(m, s). (m, step (CallStop st) s)) (processes grp)\<rparr>"
  have "stops_returned l (map (\<lambda>(m, s). (m, next_task s)) (processes grp)) (on_group l ?f mgr)"
    using Some quiet_get_group [OF assms(2) Some] wf_get_group [OF assms(1) Some]
    by (intro stops_returned_quiet) simp_all
  then have "stopProcesses st l [] mgr = Some (on_group l ?f mgr, [])"
    using Some by (simp add: stopProcesses_def await_promise_def)
  moreover have "wf_manager (on_group l ?f mgr)"
    using assms(1) by (rule wf_on_group) (simp, rule map_fst_map_step)
  moreover have "quiet (on_group l ?f mgr)"
    using assms(2) by (rule quiet_on_group) (rule quiet_group_stop)
  ultimately show ?thesis by blast
qed

lemma wf_clear: "wf_manager mgr \<Longrightarrow> wf_manager (clear_lastUsedProcess l mgr)"
  unfolding clear_lastUsedProcess_def by (rule wf_on_group) simp_all

lemma quiet_clear: "quiet mgr \<Longrightarrow> quiet (clear_lastUsedProcess l mgr)"
  unfolding clear_lastUsedProcess_def by (rule quiet_on_group) (simp_all add: quiet_group_def)

lemma cross_group_quiet:
  assumes "wf_manager mgr" "quiet mgr"
  shows "\<exists>mgr'. cross_group_swap pg [] mgr = Some (mgr', []) \<and> wf_manager mgr' \<and> quiet mgr'"
proof (cases "lastActiveGroup mgr")
  case None
  with assms show ?thesis by (simp add: cross_group_swap_def)
next
  case (Some l)
  show ?thesis
  proof (cases "get_group mgr l")
    case None
    with Some assms show ?thesis by (simp add: cross_group_swap_def)
  next
    case (Some lg)
    show ?thesis
    proof (cases "l \<noteq> group_id pg \<and> \<not> persistent lg \<and> \<not> persistent pg")
      case False
      with \<open>lastActiveGroup mgr = Some l\<close> Some assms show ?thesis
        by (auto simp: cross_group_swap_def)
    next
      case True
      from stopProcesses_quiet [OF assms, of WAIT_FOR_INFLIGHT l] obtain mgr1 where
        1: "stopProcesses WAIT_FOR_INFLIGHT l [] mgr = Some (mgr1, [])"
          "wf_manager mgr1" "quiet mgr1"
        by blast
      let ?mgr2 = "case lastActiveGroup mgr1 of
                     None \<Rightarrow> mgr1 | Some l' \<Rightarrow> clear_lastUsedProcess l' mgr1"
      have "cross_group_swap pg [] mgr = Some (?mgr2, [])"
        using True \<open>lastActiveGroup mgr = Some l\<close> Some 1(1)
        by (simp add: cross_group_swap_def)
      moreover have "wf_manager ?mgr2" "quiet ?mgr2"
        using 1(2,3) by (simp_all add: wf_clear quiet_clear split: option.splits)
      ultimately show ?thesis by blast
    qed
  qed
qed

lemma stop_other_groups_quiet:
  "wf_manager mgr \<Longrightarrow> quiet mgr \<Longrightarrow>
   \<exists>mgr'. stop_other_groups target gs [] mgr = Some (mgr', []) \<and> wf_manager mgr' \<and> quiet mgr'"
proof (induction gs arbitrary: mgr)
  case Nil
  then show ?case by simp
next
  case (Cons groupId gs)
  from stopProcesses_quiet [OF Cons.prems, of WAIT_FOR_INFLIGHT groupId] obtain mgr1 where
    1: "stopProcesses WAIT_FOR_INFLIGHT groupId [] mgr = Some (mgr1, [])"
      "wf_manager mgr1" "quiet mgr1"
    by blast
  from Cons.IH [OF wf_clear [OF 1(2)] quiet_clear [OF 1(3)], of groupId]
    Cons.IH [OF Cons.prems]
  show ?case
    by (auto simp: 1(1) split: option.splits)
qed

lemma exclusive_quiet:
  "wf_manager mgr \<Longrightarrow> quiet mgr \<Longrightarrow>
   \<exists>mgr'. exclusive_mode pg [] mgr = Some (mgr', []) \<and> wf_manager mgr' \<and> quiet mgr'"
  by (simp add: exclusive_mode_def stop_other_groups_quiet)

lemma within_quiet:
  assumes "quiet mgr"
  shows "within_group_swap pg m [] mgr = Some (mgr, [])"
proof -
  { fix g old s
    assume "get_group mgr (group_id pg) = Some g" "map_of (processes g) old = Some s"
    then have "quiet_group g" "(old, s) \<in> set (processes g)"
      using quiet_get_group [OF assms] by (auto dest: map_of_SomeD)
    then have "state (proc s) \<noteq> READY"
      by (auto simp: quiet_group_def list_all_iff) }
  then show ?thesis
    by (auto simp: within_group_swap_def getCurrentState_def split: option.splits)
qed

lemma swap_returns_when_quiet:
  assumes "wf_manager mgr" "quiet mgr"
  shows "\<exists>res mgr'. swapProcessGroup [] name mgr = Some (res, mgr', [])"
proof (cases "resolve (manager_config mgr) name")
  case None
  then show ?thesis by (simp add: swapProcessGroup_def)
next
  case (Some m)
  show ?thesis
  proof (cases "findGroupByModelName mgr m")
    case None
    with Some show ?thesis by (simp add: swapProcessGroup_def)
  next
    case (Some pg)
    from cross_group_quiet [OF assms, of pg] obtain mgr1 where
      1: "cross_group_swap pg [] mgr = Some (mgr1, [])" "wf_manager mgr1" "quiet mgr1" by blast
    from exclusive_quiet [OF 1(2,3), of pg] obtain mgr2 where
      2: "exclusive_mode pg [] mgr1 = Some (mgr2, [])" "wf_manager mgr2" "quiet mgr2" by blast
    from within_quiet [OF 2(3), of pg m]
    show ?thesis
      using \<open>resolve (manager_config mgr) name = Some m\<close> Some 1(1) 2(1)
      by (simp add: swapProcessGroup_def)
  qed
qed

lemma wf_find:
  assumes "wf_manager mgr" "findGroupByModelName mgr m = Some pg"
  shows "get_group mgr (group_id pg) = Some pg"
proof -
  from assms(2) obtain k where "find (\<lambda>(k, g). hasMember g m) (processGroups mgr) = Some (k, pg)"
    by (auto simp: findGroupByModelName_def)
  then have mem: "(k, pg) \<in> set (processGroups mgr)"
    by (auto simp: find_Some_iff in_set_conv_nth)
  with assms(1) have "group_id pg = k" by (auto simp: wf_manager_def list_all_iff)
  with mem assms(1) show ?thesis by (simp add: get_group_def wf_manager_def)
qed

text \<open>The constructors build a manager that is well formed and quiet.\<close>


lemma set_update_subset: "set (AList.update k v al) \<subseteq> insert (k, v) (set al)"
  by (induction al) auto

lemma new_processes_ok:
  "new_processes c ms acc = Inr ps \<Longrightarrow> distinct (map fst acc) \<Longrightarrow>
   list_all (\<lambda>(i, s). state (proc s) \<noteq> STARTING \<and> state (proc s) \<noteq> READY) acc \<Longrightarrow>
   distinct (map fst ps) \<and>
   list_all (\<lambda>(i, s). state (proc s) \<noteq> STARTING \<and> state (proc s) \<noteq> READY) ps"
proof (induction ms arbitrary: acc)
  case Nil
  then show ?case by simp
next
  case (Cons modelID ms)
  from Cons.prems(1) obtain mc where mc: "map_of (models c) modelID = Some mc"
    and r: "new_processes c ms
              (AList.update modelID (init_sys (new_Process modelID (healthCheckTimeout_cfg c) mc)) acc)
            = Inr ps"
    by (auto split: option.splits)
  have "list_all (\<lambda>(i, s). state (proc s) \<noteq> STARTING \<and> state (proc s) \<noteq> READY)
          (AList.update modelID (init_sys (new_Process modelID (healthCheckTimeout_cfg c) mc)) acc)"
    using Cons.prems(3) set_update_subset
      [of modelID "init_sys (new_Process modelID (healthCheckTimeout_cfg c) mc)" acc]
    by (auto simp: list_all_iff init_sys_def new_Process_def)
  with Cons.IH [OF r] Cons.prems(2) show ?case
    by (simp add: AList.distinct_update)
qed

lemma new_ProcessGroup_ok:
  assumes "new_ProcessGroup k c = Inr g"
  shows "group_id g = k \<and> distinct (map fst (processes g)) \<and> quiet_group g"
proof (cases "map_of (groups c) k")
  case None
  with assms show ?thesis by (simp add: new_ProcessGroup_def)
next
  case (Some gc)
  show ?thesis
  proof (cases "new_processes c (members gc) []")
    case (Inl e)
    with assms Some show ?thesis by (simp add: new_ProcessGroup_def)
  next
    case (Inr ps)
    with assms Some have g: "group_id g = k" "processes g = ps"
      by (auto simp: new_ProcessGroup_def)
    from new_processes_ok [OF Inr] g show ?thesis
      by (simp add: quiet_group_def)
  qed
qed

lemma new_groups_ok:
  "new_groups c gs acc = Inr r \<Longrightarrow> distinct (map fst acc) \<Longrightarrow>
   list_all (\<lambda>(k, g). group_id g = k \<and> distinct (map fst (processes g)) \<and> quiet_group g) acc \<Longrightarrow>
   distinct (map fst r) \<and>
   list_all (\<lambda>(k, g). group_id g = k \<and> distinct (map fst (processes g)) \<and> quiet_group g) r"
proof (induction gs arbitrary: acc)
  case Nil
  then show ?case by simp
next
  case (Cons groupID gs)
  from Cons.prems(1) obtain pg where pg: "new_ProcessGroup groupID c = Inr pg"
    and r: "new_groups c gs (AList.update groupID pg acc) = Inr r"
    by (auto split: sum.splits)
  have "list_all (\<lambda>(k, g). group_id g = k \<and> distinct (map fst (processes g)) \<and> quiet_group g)
          (AList.update groupID pg acc)"
    using Cons.prems(3) set_update_subset [of groupID pg acc]
      new_ProcessGroup_ok [OF pg]
    by (auto simp: list_all_iff)
  with Cons.IH [OF r] Cons.prems(2) show ?case
    by (simp add: AList.distinct_update)
qed

lemma new_ProcessManager_ok:
  assumes "new_ProcessManager c = Inr mgr"
  shows "wf_manager mgr \<and> quiet mgr \<and> lastActiveGroup mgr = None \<and> \<not> shutdown mgr"
proof -
  from assms obtain gs where "new_groups c (map fst (groups c)) [] = Inr gs"
    and m: "processGroups mgr = gs" "lastActiveGroup mgr = None" "\<not> shutdown mgr"
    by (auto simp: new_ProcessManager_def split: sum.splits)
  from new_groups_ok [OF this(1)] m show ?thesis
    by (auto simp: wf_manager_def quiet_alt list_all_iff)
qed

text \<open>
  Well-formedness is kept by every event and by every call, so that a manager built by the
  constructor stays well formed.
\<close>

lemma layout_update_tracking [simp]: "layout (update_tracking pg m mgr) = layout mgr"
  by (simp add: update_tracking_def)

lemma layout_swap:
  assumes "swapProcessGroup env name mgr = Some (res, mgr', env')"
  shows "layout mgr' = layout mgr"
proof (cases res)
  case (Inl e)
  with assms show ?thesis
    by (auto simp: swapProcessGroup_def split: option.splits)
next
  case (Inr r)
  with assms obtain pg m mgr1 env1 mgr2 env2 mgr3 where
    1: "cross_group_swap pg env mgr = Some (mgr1, env1)" and
    2: "exclusive_mode pg env1 mgr1 = Some (mgr2, env2)" and
    3: "within_group_swap pg m env2 mgr2 = Some (mgr3, env')" and
    4: "mgr' = update_tracking pg m mgr3"
    by (auto simp: swapProcessGroup_def split: option.splits)
  from layout_cross_group [OF 1] layout_exclusive [OF 2] layout_within [OF 3]
  show ?thesis by (simp add: 4)
qed

lemma wf_layout:
  "wf_manager mgr =
     (distinct (map fst (layout mgr)) \<and> list_all (\<lambda>(k, i, ps). i = k \<and> distinct ps) (layout mgr))"
  by (simp add: wf_manager_def layout_def list_all_iff comp_def case_prod_unfold)

lemma wf_swap:
  "swapProcessGroup env name mgr = Some (res, mgr', env') \<Longrightarrow> wf_manager mgr' = wf_manager mgr"
  by (simp add: wf_layout layout_swap)

lemma wf_deliver: "wf_manager (deliver sl mgr) = wf_manager mgr"
  by (simp add: wf_layout)

lemma wf_shutdownAll: "wf_manager (shutdownAll mgr) = wf_manager mgr"
proof -
  have "layout (shutdownAll mgr) = layout mgr"
    by (simp add: layout_def shutdownAll_def group_shutdown_def comp_def case_prod_unfold)
  then show ?thesis by (simp add: wf_layout)
qed

subsection \<open>The shutdown flag\<close>

text \<open>
  Setting the flag before a call or after it makes no difference to what the call does.
\<close>

lemma flag_on_group: "on_group g f (mgr\<lparr>shutdown := b\<rparr>) = (on_group g f mgr)\<lparr>shutdown := b\<rparr>"
  by (simp add: on_group_def)

lemma flag_on_process:
  "on_process g m f (mgr\<lparr>shutdown := b\<rparr>) = (on_process g m f mgr)\<lparr>shutdown := b\<rparr>"
  by (simp add: on_process_def flag_on_group)

lemma flag_get_group [simp]: "get_group (mgr\<lparr>shutdown := b\<rparr>) = get_group mgr"
  by (simp add: get_group_def fun_eq_iff)

lemma flag_occur: "occur x (mgr\<lparr>shutdown := b\<rparr>) = (occur x mgr)\<lparr>shutdown := b\<rparr>"
  by (cases x) (simp_all add: flag_on_process flag_on_group)

lemma flag_deliver: "deliver sl (mgr\<lparr>shutdown := b\<rparr>) = (deliver sl mgr)\<lparr>shutdown := b\<rparr>"
  by (induction sl arbitrary: mgr) (simp_all add: flag_occur)

lemma flag_get_process [simp]: "get_process (mgr\<lparr>shutdown := b\<rparr>) = get_process mgr"
  by (simp add: get_process_def fun_eq_iff)

definition with_flag ::
  "bool \<Rightarrow> (ProcessManager \<times> slice list) option \<Rightarrow> (ProcessManager \<times> slice list) option" where
  "with_flag b r = map_option (\<lambda>(m, e). (m\<lparr>shutdown := b\<rparr>, e)) r"

lemma with_flag_simps [simp]:
  "with_flag b None = None"
  "with_flag b (Some (m, e)) = Some (m\<lparr>shutdown := b\<rparr>, e)"
  by (simp_all add: with_flag_def)

lemma flag_await_until:
  assumes "\<And>m. done (m\<lparr>shutdown := b\<rparr>) = done m"
  shows "await_until done env (mgr\<lparr>shutdown := b\<rparr>) = with_flag b (await_until done env mgr)"
  by (induction env arbitrary: mgr) (simp_all add: assms flag_deliver)

lemma flag_await_promise:
  assumes "\<And>m. done (m\<lparr>shutdown := b\<rparr>) = done m"
  shows "await_promise done env (mgr\<lparr>shutdown := b\<rparr>) = with_flag b (await_promise done env mgr)"
  by (cases env)
     (simp_all add: await_promise_def flag_await_until [of "done", OF assms] flag_deliver assms)

lemma flag_stopProcesses:
  "stopProcesses st l env (mgr\<lparr>shutdown := b\<rparr>) = with_flag b (stopProcesses st l env mgr)"
  by (cases "get_group mgr l")
     (simp_all add: stopProcesses_def flag_on_group flag_await_promise stops_returned_def)

lemma flag_clear:
  "clear_lastUsedProcess l (mgr\<lparr>shutdown := b\<rparr>) = (clear_lastUsedProcess l mgr)\<lparr>shutdown := b\<rparr>"
  by (simp add: clear_lastUsedProcess_def flag_on_group)

lemma flag_cross_group:
  "cross_group_swap pg env (mgr\<lparr>shutdown := b\<rparr>) = with_flag b (cross_group_swap pg env mgr)"
  by (auto simp: cross_group_swap_def flag_stopProcesses flag_clear split: option.splits)

lemma flag_stop_other_groups:
  "stop_other_groups target gs env (mgr\<lparr>shutdown := b\<rparr>) =
     with_flag b (stop_other_groups target gs env mgr)"
proof (induction gs arbitrary: env mgr)
  case Nil
  then show ?case by simp
next
  case (Cons groupId gs)
  then show ?case
    by (auto simp: flag_stopProcesses flag_clear split: option.splits)
qed

lemma flag_exclusive:
  "exclusive_mode pg env (mgr\<lparr>shutdown := b\<rparr>) = with_flag b (exclusive_mode pg env mgr)"
  by (simp add: exclusive_mode_def flag_stop_other_groups)

lemma flag_within:
  "within_group_swap pg m env (mgr\<lparr>shutdown := b\<rparr>) =
     with_flag b (within_group_swap pg m env mgr)"
proof -
  have 1: "\<And>g' m' t mgr. call_returned g' m' t (mgr\<lparr>shutdown := b\<rparr>) = call_returned g' m' t mgr"
    by (simp add: call_returned_def)
  have 2: "\<And>g' m' mgr. not_stopping g' m' (mgr\<lparr>shutdown := b\<rparr>) = not_stopping g' m' mgr"
    by (simp add: not_stopping_def)
  show ?thesis
    by (auto simp: within_group_swap_def flag_on_process
          flag_await_promise [of "call_returned g' m' t" for g' m' t, OF 1]
          flag_await_until [of "not_stopping g' m'" for g' m', OF 2] split: option.splits)
qed

lemma flag_update_tracking:
  "update_tracking pg m (mgr\<lparr>shutdown := b\<rparr>) = (update_tracking pg m mgr)\<lparr>shutdown := b\<rparr>"
  by (simp add: update_tracking_def on_group_def)

lemma flag_swap:
  "swapProcessGroup env name (mgr\<lparr>shutdown := b\<rparr>) =
     map_option (\<lambda>(r, m, e). (r, m\<lparr>shutdown := b\<rparr>, e)) (swapProcessGroup env name mgr)"
proof -
  have f: "findGroupByModelName (mgr\<lparr>shutdown := b\<rparr>) = findGroupByModelName mgr"
    by (simp add: findGroupByModelName_def fun_eq_iff)
  show ?thesis
    by (auto simp: swapProcessGroup_def f flag_cross_group flag_exclusive flag_within
          flag_update_tracking split: option.splits)
qed

subsection \<open>The claims about the manager\<close>

text \<open>
  The examples use a manager built from a configuration with the non-persistent group
  \<open>G1\<close> of the models \<open>a\<close> and \<open>b\<close>, the persistent group \<open>G2\<close> of the model \<open>c\<close>, the
  group \<open>G3\<close> without \<open>swap\<close> of the model \<open>d\<close>, and the alias \<open>alpha\<close> of \<open>a\<close>. In
  \<open>demo_manager_a_ready\<close> the model \<open>a\<close> has been swapped in and started, with child 7;
  \<open>demo_stop_a\<close> is an environment in which nothing happens while the stops of \<open>G3\<close> are
  awaited, then the pending \<open>stop\<close> of \<open>a\<close> is resumed, then child 7 exits while another
  call makes \<open>G2\<close> the last active group.
\<close>

definition demo_manager :: ProcessManager where
  "demo_manager =
     (case new_ProcessManager demo_config of
        Inr m \<Rightarrow> m
      | Inl e \<Rightarrow> \<lparr>manager_config = demo_config, processGroups = [], shutdown = False,
                  lastActiveGroup = None\<rparr>)"

definition demo_group_of :: "string \<Rightarrow> ProcessGroup" where
  "demo_group_of g =
     (case get_group demo_manager g of
        Some grp \<Rightarrow> grp
      | None \<Rightarrow> \<lparr>swap = False, exclusive = False, persistent = False, members = [],
                  group_id = g, processes = [], lastUsedProcess = []\<rparr>)"

definition demo_start_a :: slice where
  "demo_start_a =
     [OnProcess ''G1'' ''a'' CallStart,
      OnProcess ''G1'' ''a'' (Resume 0 (demo_input (Some 7) None 0)),
      OnProcess ''G1'' ''a'' (Resume 0 (demo_input None None 250)),
      OnProcess ''G1'' ''a'' (Resume 0 (demo_input None (Some 200) 300)),
      OnProcess ''G1'' ''a'' (Resume 0 (demo_input None None 300))]"

definition demo_manager_a_ready :: ProcessManager where
  "demo_manager_a_ready =
     (case swapProcessGroup [] ''alpha'' demo_manager of
        Some (r, m, e) \<Rightarrow> deliver demo_start_a m
      | None \<Rightarrow> demo_manager)"

definition demo_stop_a :: "slice list" where
  "demo_stop_a =
     [[],
      [OnProcess ''G1'' ''a'' (Resume 1 (demo_input None None 400))],
      [OnProcess ''G1'' ''a'' (ChildExit 7), SetLastActiveGroup ''G2'']]"

lemma demo_manager_built: "new_ProcessManager demo_config = Inr demo_manager"
  by (simp add: demo_manager_def new_ProcessManager_def demo_config_def new_ProcessGroup_def
      demo_group_def)

text \<open>
  C1, as stated, fails: \<open>swapProcessGroup\<close> never calls \<open>start\<close>, and what it returns is the
  group, not a process. On a fresh manager the call for \<open>alpha\<close> returns group \<open>G1\<close> and
  model \<open>a\<close>, and the process of \<open>a\<close> is still STOPPED, has spawned nothing, and has never
  had a call of \<open>start\<close> or \<open>stop\<close> made on it.
\<close>

theorem swap_start_counterexample:
  "map_option
     (\<lambda>(r, m, e). (r, map_option (\<lambda>s. (state (proc s), effects (proc s), next_task s))
                         (get_process m ''G1'' ''a'')))
     (swapProcessGroup [] ''alpha'' demo_manager) =
   Some (Inr (''G1'', ''a''), Some (STOPPED, [], 0))"
  by code_simp

text \<open>
  C1, amended. For a call of \<open>swapProcessGroup\<close> on a well-formed manager (one built by the
  constructor, after any calls and events) with a name that resolves to model id \<open>m\<close> in
  group \<open>G\<close>: if the call returns, it returns \<open>G\<close> (the group, not a process) together with
  \<open>m\<close>, \<open>G\<close> is then \<open>lastActiveGroup\<close> and \<open>m\<close> is \<open>G\<close>'s \<open>lastUsedProcess\<close>, the manager
  is still well formed, and the call has done nothing to \<open>G\<close>'s process for \<open>m\<close>: that
  process has seen only the events that reached it from outside while the call waited, so
  \<open>start\<close> has not been invoked by the call and the state need not be READY. When no process
  of the manager is STARTING or READY the call returns without waiting, and the process of
  \<open>m\<close> is exactly as before.
\<close>

theorem swap_returns_group_and_id:
  assumes "wf_manager mgr"
    and "resolve (manager_config mgr) requestedModel = Some m"
    and "findGroupByModelName mgr m = Some pg"
  shows "(swapProcessGroup env requestedModel mgr = Some (res, mgr', env') \<longrightarrow>
            res = Inr (group_id pg, m) \<and>
            lastActiveGroup mgr' = Some (group_id pg) \<and>
            map_option lastUsedProcess (get_group mgr' (group_id pg)) = Some m \<and>
            frame (group_id pg) m env mgr env' mgr' \<and>
            wf_manager mgr') \<and>
         (quiet mgr \<longrightarrow>
            (\<exists>mgr'. swapProcessGroup [] requestedModel mgr = Some (Inr (group_id pg, m), mgr', []) \<and>
                    get_process mgr' (group_id pg) m = get_process mgr (group_id pg) m))"
proof (intro conjI impI)
  assume s: "swapProcessGroup env requestedModel mgr = Some (res, mgr', env')"
  from swap_result [OF s assms(2,3)]
  show r: "res = Inr (group_id pg, m)" and "lastActiveGroup mgr' = Some (group_id pg)"
    by simp_all
  from wf_find [OF assms(1,3)] have "get_group mgr (group_id pg) \<noteq> None" by simp
  with s show "map_option lastUsedProcess (get_group mgr' (group_id pg)) = Some m"
    unfolding r by (rule swap_lastUsedProcess)
  from s show "frame (group_id pg) m env mgr env' mgr'"
    unfolding r by (rule frame_swap)
  from wf_swap [OF s] assms(1) show "wf_manager mgr'"
    by simp
next
  assume "quiet mgr"
  with assms(1) obtain res mgr' where
    s: "swapProcessGroup [] requestedModel mgr = Some (res, mgr', [])"
    using swap_returns_when_quiet by blast
  from swap_result [OF s assms(2,3)] have r: "res = Inr (group_id pg, m)" by simp
  from s have "frame (group_id pg) m [] mgr [] mgr'"
    unfolding r by (rule frame_swap)
  then have "get_process mgr' (group_id pg) m = get_process mgr (group_id pg) m"
    by (auto simp: frame_def)
  with s r show "\<exists>mgr'. swapProcessGroup [] requestedModel mgr =
        Some (Inr (group_id pg, m), mgr', []) \<and>
      get_process mgr' (group_id pg) m = get_process mgr (group_id pg) m"
    by blast
qed

theorem swap_returns_group_and_id_witness:
  "wf_manager demo_manager \<and> quiet demo_manager \<and>
   resolve (manager_config demo_manager) ''alpha'' = Some ''a'' \<and>
   map_option group_id (findGroupByModelName demo_manager ''a'') = Some ''G1'' \<and>
   (\<exists>mgr'. swapProcessGroup [] ''alpha'' demo_manager = Some (Inr (''G1'', ''a''), mgr', []) \<and>
           get_process mgr' ''G1'' ''a'' = get_process demo_manager ''G1'' ''a'') \<and>
   wf_manager demo_manager_a_ready \<and>
   map_option (\<lambda>(r, m, e). (r, lastActiveGroup m, map_option lastUsedProcess (get_group m ''G1''),
                            map_option (\<lambda>s. state (proc s)) (get_process m ''G1'' ''b'')))
     (swapProcessGroup demo_stop_a ''b'' demo_manager_a_ready) =
     Some (Inr (''G1'', ''b''), Some ''G1'', Some ''b'', Some STOPPED)"
proof -
  have wf: "wf_manager demo_manager" and q: "quiet demo_manager"
    using new_ProcessManager_ok [OF demo_manager_built] by simp_all
  have r: "resolve (manager_config demo_manager) ''alpha'' = Some ''a''"
    by code_simp
  have g: "map_option group_id (findGroupByModelName demo_manager ''a'') = Some ''G1''"
    by code_simp
  then obtain pg where f: "findGroupByModelName demo_manager ''a'' = Some pg"
    and i: "group_id pg = ''G1''"
    by auto
  have 1: "\<exists>mgr'. swapProcessGroup [] ''alpha'' demo_manager = Some (Inr (''G1'', ''a''), mgr', []) \<and>
           get_process mgr' ''G1'' ''a'' = get_process demo_manager ''G1'' ''a''"
    using swap_returns_group_and_id [OF wf r f] q unfolding i by blast
  have 2: "wf_manager demo_manager_a_ready"
    by code_simp
  have 3: "map_option (\<lambda>(r, m, e). (r, lastActiveGroup m,
                            map_option lastUsedProcess (get_group m ''G1''),
                            map_option (\<lambda>s. state (proc s)) (get_process m ''G1'' ''b'')))
     (swapProcessGroup demo_stop_a ''b'' demo_manager_a_ready) =
     Some (Inr (''G1'', ''b''), Some ''G1'', Some ''b'', Some STOPPED)"
    by code_simp
  from wf q r g 1 2 3 show ?thesis by blast
qed

text \<open>
  C6, as stated, fails in its second half. \<open>addInFlightRequest\<close> looks at no state, and
  \<open>proxyRequest\<close> calls it on the process whatever its state is: on the fresh manager the
  request for \<open>d\<close>, in the group \<open>G3\<close> without \<open>swap\<close>, is registered at time 5 on a process
  that is STOPPED and has never made a transition. Between that registration and the release
  the process is STOPPED with a counter of 1.
\<close>

theorem inflight_counterexample:
  "map_option
     (\<lambda>(r, m, e). (r, map_option (\<lambda>s. (state (proc s), emitted (proc s), lastRequestHandled (proc s)))
                         (get_process m ''G3'' ''d'')))
     (proxyRequest (demo_group_of ''G3'') ''d'' 5 [] demo_manager) =
     Some (Inr (), Some (STOPPED, [], 5)) \<and>
   map_option
     (\<lambda>s. (state (proc (run [AddInFlight 5] s)), inFlightRequests (proc (run [AddInFlight 5] s))))
     (get_process demo_manager ''G3'' ''d'') =
     Some (STOPPED, 1)"
  by code_simp

text \<open>
  C3, as stated, fails: a swap into the persistent group \<open>G2\<close> makes \<open>G2\<close> the
  \<open>lastActiveGroup\<close>.
\<close>

theorem lastActiveGroup_counterexample:
  "map_option (\<lambda>(r, m, e). (r, lastActiveGroup m)) (swapProcessGroup [] ''c'' demo_manager) =
     Some (Inr (''G2'', ''c''), Some ''G2'') \<and>
   map_option persistent (get_group demo_manager ''G2'') = Some True"
  by code_simp

text \<open>
  C3, amended. For every successful call of \<open>swapProcessGroup\<close>, \<open>lastActiveGroup\<close> is set to
  the target group, the group found for the resolved model, whether that group is persistent
  or not.
\<close>

theorem swap_sets_lastActiveGroup:
  assumes "swapProcessGroup env requestedModel mgr = Some (Inr (g, m), mgr', env')"
  shows "lastActiveGroup mgr' = Some g \<and>
         (\<exists>pg. findGroupByModelName mgr m = Some pg \<and> group_id pg = g)"
  using assms
  by (auto simp: swapProcessGroup_def update_tracking_def split: option.splits)

theorem swap_sets_lastActiveGroup_witness:
  "\<exists>mgr'. swapProcessGroup [] ''c'' demo_manager = Some (Inr (''G2'', ''c''), mgr', []) \<and>
          lastActiveGroup mgr' = Some ''G2''"
proof -
  have "map_option (\<lambda>(r, m, e). (r, e)) (swapProcessGroup [] ''c'' demo_manager) =
      Some (Inr (''G2'', ''c''), [])"
    by code_simp
  then obtain mgr' where
    s: "swapProcessGroup [] ''c'' demo_manager = Some (Inr (''G2'', ''c''), mgr', [])"
    by auto
  from swap_sets_lastActiveGroup [OF s] s show ?thesis by blast
qed

text \<open>
  C5, as stated, fails: after \<open>shutdownAll\<close> the flag is set, and a call of
  \<open>swapProcessGroup\<close> still resolves the name and returns the group and the model id.
\<close>

theorem shutting_down_counterexample:
  "shutdown (shutdownAll demo_manager) = True \<and>
   map_option (\<lambda>(r, m, e). r) (swapProcessGroup [] ''alpha'' (shutdownAll demo_manager)) =
     Some (Inr (''G1'', ''a''))"
  by code_simp

text \<open>
  C5, amended. \<open>shutdownAll\<close> sets the \<open>shutdown\<close> flag, and \<open>swapProcessGroup\<close> never reads
  it: on a manager with the flag set to any value, a call does what it does on the same
  manager with the flag as it was (same result or error, same stops, same waiting), and
  leaves the flag at that value.
\<close>

theorem swap_ignores_shutdown_flag:
  "shutdown (shutdownAll mgr) = True \<and>
   swapProcessGroup env requestedModel (mgr\<lparr>shutdown := b\<rparr>) =
     map_option (\<lambda>(r, m, e). (r, m\<lparr>shutdown := b\<rparr>, e)) (swapProcessGroup env requestedModel mgr)"
  by (simp add: flag_swap shutdownAll_def)

theorem swap_ignores_shutdown_flag_witness:
  "swapProcessGroup [] ''alpha'' (demo_manager\<lparr>shutdown := True\<rparr>) =
     map_option (\<lambda>(r, m, e). (r, m\<lparr>shutdown := True\<rparr>, e))
       (swapProcessGroup [] ''alpha'' demo_manager)"
  using swap_ignores_shutdown_flag [of demo_manager "[]" "''alpha''" True]
  by simp

section \<open>The configuration loader\<close>

text \<open>
  \<open>loadConfig\<close> works on the parsed YAML merged over the defaults of the loader. In that
  object a value is whatever the YAML file gave: the loader checks the type of no field but
  the macro values, and JavaScript converts as it goes. The model therefore has JavaScript
  values, with the conversions that the loader's comparisons, its \<open>nextPort++\<close> and its
  \<open>String(macroValue)\<close> perform. Strings are lists of characters, compared and sorted
  character by character as JavaScript compares code units; the characters are those below
  256.
\<close>

subsection \<open>Numbers\<close>

text \<open>
  A JavaScript number is a double: not a number, an infinity, the negative zero, or a finite
  value, given here by the rational it stands for. \<open>double_of_rat\<close> rounds a rational to the
  nearest double, to the one with the even mantissa if two are equally near: \<open>e\<close> is the
  exponent of the last place of the 53-bit mantissa, not below that of the subnormal numbers,
  and a result of \<open>2^1024\<close> or more is an infinity. \<open>num_succ\<close> is \<open>x + 1\<close>. \<open>lessThan_num\<close>
  is the comparison of two numbers, undefined (\<open>None\<close>) when one of them is not a number.
\<close>

datatype jsnum = NaN | PosInf | NegInf | NegZero | Fin rat

definition pow2 :: "int \<Rightarrow> rat" where
  "pow2 k = (if k \<ge> 0 then 2 ^ nat k else 1 / 2 ^ nat (- k))"

definition pow10 :: "int \<Rightarrow> rat" where
  "pow10 k = (if k \<ge> 0 then 10 ^ nat k else 1 / 10 ^ nat (- k))"

definition ilog2 :: "rat \<Rightarrow> int" where
  "ilog2 a = (if a \<ge> 1 then bitlen \<lfloor>a\<rfloor> - 1 else - bitlen (\<lceil>1 / a\<rceil> - 1))"

definition round_half_even :: "rat \<Rightarrow> int" where
  "round_half_even q =
     (let f = \<lfloor>q\<rfloor>; d = q - of_int f
      in if d < 1 / 2 then f else if d > 1 / 2 then f + 1 else if even f then f else f + 1)"

definition double_of_rat :: "rat \<Rightarrow> jsnum" where
  "double_of_rat r =
     (if r = 0 then Fin 0
      else let a = \<bar>r\<bar>;
               e = max (ilog2 a - 52) (- 1074);
               v = of_int (round_half_even (a / pow2 e)) * pow2 e
           in if bitlen \<lfloor>v\<rfloor> > 1024 then (if r > 0 then PosInf else NegInf)
              else if v = 0 then (if r > 0 then Fin 0 else NegZero)
              else Fin (if r > 0 then v else - v))"

definition num_succ :: "jsnum \<Rightarrow> jsnum" where
  "num_succ x = (case x of NegZero \<Rightarrow> Fin 1 | Fin r \<Rightarrow> double_of_rat (r + 1) | _ \<Rightarrow> x)"

fun num_rank :: "jsnum \<Rightarrow> int \<times> rat" where
  "num_rank NegInf = (- 1, 0)"
| "num_rank PosInf = (1, 0)"
| "num_rank (Fin r) = (0, r)"
| "num_rank _ = (0, 0)"

definition lessThan_num :: "jsnum \<Rightarrow> jsnum \<Rightarrow> bool option" where
  "lessThan_num x y =
     (if x = NaN \<or> y = NaN then None
      else Some (fst (num_rank x) < fst (num_rank y) \<or>
                 fst (num_rank x) = fst (num_rank y) \<and> snd (num_rank x) < snd (num_rank y)))"

text \<open>
  Every integer from 1 to \<open>2^53\<close> is a double, so that adding 1 below \<open>2^53\<close> is exact.
\<close>

lemma round_half_even_of_int [simp]: "round_half_even (of_int j) = j"
  by (simp add: round_half_even_def)

lemma bitlen_le_54:
  assumes "1 \<le> m" "m \<le> 2 ^ 53"
  shows "1 \<le> bitlen m" "bitlen m \<le> 54"
proof -
  from assms have m: "0 < m" by simp
  then show "1 \<le> bitlen m"
    by (simp add: bitlen_alt_def)
  have "(2::int) ^ nat (bitlen m - 1) \<le> m"
    using bitlen_bounds [OF m] by simp
  from this assms(2) have le: "(2::int) ^ nat (bitlen m - 1) \<le> 2 ^ 53" by (rule order_trans)
  have "nat (bitlen m - 1) \<le> 53"
  proof (rule power_le_imp_le_exp)
    show "(1::int) < 2" by simp
    show "(2::int) ^ nat (bitlen m - 1) \<le> 2 ^ 53" by (rule le)
  qed
  then show "bitlen m \<le> 54" by simp
qed

lemma double_of_int:
  assumes "1 \<le> m" "m \<le> 2 ^ 53"
  shows "double_of_rat (of_int m) = Fin (of_int m)"
proof -
  define b where "b = bitlen m"
  note bb = bitlen_le_54 [OF assms, folded b_def]
  have pos: "(0::rat) < of_int m" "(1::rat) \<le> of_int m"
    using assms by simp_all
  have il: "ilog2 (of_int m) = b - 1"
    using pos by (simp add: ilog2_def b_def)
  have e: "max (ilog2 \<bar>of_int m\<bar> - 52) (- 1074) = b - 53"
    using pos bb by (simp add: il)
  have v: "of_int (round_half_even (\<bar>of_int m\<bar> / pow2 (b - 53))) * pow2 (b - 53) = (of_int m :: rat)"
  proof (cases "b \<le> 53")
    case True
    define j where "j = nat (53 - b)"
    have p: "pow2 (b - 53) = 1 / 2 ^ j"
      using True by (cases "b = 53") (simp_all add: pow2_def j_def)
    have q: "\<bar>of_int m :: rat\<bar> / pow2 (b - 53) = of_int (m * 2 ^ j)"
      using pos by (simp add: p)
    show ?thesis
      unfolding q round_half_even_of_int by (simp add: p)
  next
    case False
    with bb have b: "b = 54" by simp
    have "(2::int) ^ nat (bitlen m - 1) \<le> m"
      using bitlen_bounds [of m] assms by simp
    with b assms have m: "m = 2 ^ 53"
      by (simp add: b_def)
    have q: "\<bar>of_int m :: rat\<bar> / pow2 (b - 53) = of_int (2 ^ 52)"
      by (simp add: b m pow2_def)
    show ?thesis
      unfolding q round_half_even_of_int by (simp add: b m pow2_def)
  qed
  have fl: "bitlen \<lfloor>of_int m :: rat\<rfloor> = b"
    by (simp add: b_def)
  show ?thesis
    using pos bb unfolding double_of_rat_def Let_def e v fl by simp
qed


text \<open>
  The same fact as an equation for evaluation: an integer from 0 to \<open>2^53\<close> is not rounded.
\<close>

lemma double_of_rat_code [code]:
  "double_of_rat r =
     (if of_int \<lfloor>r\<rfloor> = r \<and> 0 \<le> r \<and> r \<le> 9007199254740992 then Fin r
      else if r = 0 then Fin 0
      else let a = \<bar>r\<bar>;
               e = max (ilog2 a - 52) (- 1074);
               v = of_int (round_half_even (a / pow2 e)) * pow2 e
           in if bitlen \<lfloor>v\<rfloor> > 1024 then (if r > 0 then PosInf else NegInf)
              else if v = 0 then (if r > 0 then Fin 0 else NegZero)
              else Fin (if r > 0 then v else - v))"
proof (cases "of_int \<lfloor>r\<rfloor> = r \<and> 0 \<le> r \<and> r \<le> 9007199254740992")
  case True
  define m where "m = \<lfloor>r\<rfloor>"
  from True have "of_int \<lfloor>r\<rfloor> = r" by (rule conjunct1)
  then have r: "r = of_int m" by (simp only: m_def)
  from True have "0 \<le> r" by blast
  then have "0 \<le> m" by (simp add: m_def)
  moreover from True have "r \<le> 9007199254740992" by blast
  then have "rat_of_int m \<le> 9007199254740992" by (simp only: r)
  then have "m \<le> 9007199254740992" by linarith
  then have "m \<le> 2 ^ 53" by simp
  ultimately have m: "r = of_int m" "0 \<le> m" "m \<le> 2 ^ 53" using r by blast+
  show ?thesis
  proof (cases "m = 0")
    case True
    with m show ?thesis by (simp add: double_of_rat_def)
  next
    case False
    with m have "1 \<le> m" by simp
    from double_of_int [OF this m(3)] m True show ?thesis by simp
  qed
next
  case False
  then show ?thesis
    unfolding double_of_rat_def by (simp only: if_False)
qed

subsection \<open>Strings\<close>

text \<open>
The white space that \<open>trim\<close> removes, among the characters below 256.
\<close>

definition is_space :: "char \<Rightarrow> bool" where
  "is_space c = (c \<in> {CHR 0x09, CHR 0x0A, CHR 0x0B, CHR 0x0C, CHR 0x0D, CHR 0x20, CHR 0xA0})"

definition trim :: "string \<Rightarrow> string" where
  "trim s = rev (dropWhile is_space (rev (dropWhile is_space s)))"

fun startsWith :: "string \<Rightarrow> string \<Rightarrow> bool" where
  "startsWith s [] = True"
| "startsWith [] (p # ps) = False"
| "startsWith (c # cs) (p # ps) = (c = p \<and> startsWith cs ps)"

fun includes_str :: "string \<Rightarrow> string \<Rightarrow> bool" where
  "includes_str [] needle = (needle = [])"
| "includes_str (c # cs) needle = (startsWith (c # cs) needle \<or> includes_str cs needle)"

fun split_lines :: "string \<Rightarrow> string list" where
  "split_lines [] = [[]]"
| "split_lines (c # cs) =
     (if c = CHR 0x0A then [] # split_lines cs
      else (case split_lines cs of [] \<Rightarrow> [[c]] | l # ls \<Rightarrow> (c # l) # ls))"

fun join_with :: "string \<Rightarrow> string list \<Rightarrow> string" where
  "join_with sep [] = []"
| "join_with sep [l] = l"
| "join_with sep (l # ls) = l @ sep @ join_with sep ls"

definition stripComments :: "string \<Rightarrow> string" where
  "stripComments cmdStr =
     join_with [CHR 0x0A]
       (filter (\<lambda>line. \<not> startsWith (trim line) ''#'') (split_lines cmdStr))"

text \<open>
  \<open>expand\<close> is what \<open>String.replace\<close> makes of its replacement string at one match of a
  pattern without groups: \<open>$$\<close> is a dollar sign, \<open>$&\<close> the matched text, a dollar sign and
  a backquote the text to the left of the match, a dollar sign and a quote the text to the
  right of it; everything else stands for itself.
\<close>

fun expand :: "string \<Rightarrow> string \<Rightarrow> string \<Rightarrow> string \<Rightarrow> string" where
  "expand [] matched left right = []"
| "expand [c] matched left right = [c]"
| "expand (c # d # t) matched left right =
     (if c = CHR ''$'' \<and> d = CHR ''$'' then CHR ''$'' # expand t matched left right
      else if c = CHR ''$'' \<and> d = CHR ''&'' then matched @ expand t matched left right
      else if c = CHR ''$'' \<and> d = CHR 0x60 then left @ expand t matched left right
      else if c = CHR ''$'' \<and> d = CHR 0x27 then right @ expand t matched left right
      else c # expand (d # t) matched left right)"

text \<open>
  \<open>replace_all slug template left s\<close> is \<open>value.replace(new RegExp(escapedMacroSlug, 'g'),
  macroStr)\<close> on the part \<open>s\<close> of the value that follows \<open>left\<close>. The pattern is the slug with
  every character that is special in a pattern escaped, so it matches the slug itself, from
  left to right.
\<close>

function replace_all :: "string \<Rightarrow> string \<Rightarrow> string \<Rightarrow> string \<Rightarrow> string" where
  "replace_all slug template left [] = []"
| "replace_all slug template left (c # cs) =
     (if slug \<noteq> [] \<and> startsWith (c # cs) slug
      then expand template slug left (drop (length slug) (c # cs)) @
           replace_all slug template (left @ slug) (drop (length slug) (c # cs))
      else c # replace_all slug template (left @ [c]) cs)"
  by pat_completeness auto
termination
  by (relation "measure (\<lambda>(slug, template, left, s). length s)") auto

subsection \<open>Numbers and strings\<close>

text \<open>
  \<open>NumberToString\<close> is \<open>Number::toString\<close>: the shortest string of digits that reads back
  as the number, the closest to the number if there are several (\<open>shortest\<close>, which tries
  1, 2, ... digits), laid out with or without an exponent (\<open>format_digits\<close>). An integer up
  to \<open>2^53\<close> is written with all its digits: it is a double, and no shorter string of digits
  reads back as it.
\<close>

function digits :: "int \<Rightarrow> string" where
  "digits n =
     (if n < 10 then [''0123456789'' ! nat n]
      else digits (n div 10) @ [''0123456789'' ! nat (n mod 10)])"
  by pat_completeness auto
termination by (relation "measure nat") auto

declare digits.simps [simp del]

text \<open>
The \<open>n\<close> with \<open>10^(n-1) \<le> x < 10^n\<close>, for positive \<open>x\<close>.
\<close>

definition magnitude10 :: "rat \<Rightarrow> int" where
  "magnitude10 x =
     (if x \<ge> 1 then int (length (digits \<lfloor>x\<rfloor>))
      else 1 - int (length (digits (\<lceil>1 / x\<rceil> - 1))))"

text \<open>
  The candidates with \<open>k\<close> digits: the numbers \<open>s\<close> of \<open>k\<close> digits next to \<open>x\<close> on either
  side, each with its \<open>n\<close>, that read back as \<open>x\<close>.
\<close>

definition candidates :: "rat \<Rightarrow> nat \<Rightarrow> (int \<times> int) list" where
  "candidates x k =
     (let n = magnitude10 x;
          lo = \<lfloor>x / pow10 (n - int k)\<rfloor>;
          hi = lo + 1;
          both = [(lo, n), (if hi = 10 ^ k then (10 ^ (k - 1), n + 1) else (hi, n))]
      in filter (\<lambda>(s, n). double_of_rat (of_int s * pow10 (n - int k)) = Fin x) both)"

definition closest :: "rat \<Rightarrow> nat \<Rightarrow> (int \<times> int) list \<Rightarrow> int \<times> int" where
  "closest x k cs =
     (case cs of
        [c] \<Rightarrow> c
      | [(s1, n1), (s2, n2)] \<Rightarrow>
          (let d1 = x - of_int s1 * pow10 (n1 - int k);
               d2 = of_int s2 * pow10 (n2 - int k) - x
           in if d1 < d2 then (s1, n1) else if d2 < d1 then (s2, n2)
              else if even s1 then (s1, n1) else (s2, n2))
      | _ \<Rightarrow> (0, 0))"

fun shortest :: "rat \<Rightarrow> nat \<Rightarrow> nat \<Rightarrow> nat \<times> int \<times> int" where
  "shortest x k 0 = (k, closest x k (candidates x k))"
| "shortest x k (Suc fuel) =
     (if candidates x k \<noteq> [] then (k, closest x k (candidates x k))
      else shortest x (Suc k) fuel)"

definition format_digits :: "nat \<Rightarrow> int \<Rightarrow> int \<Rightarrow> string" where
  "format_digits k s n =
     (let ds = digits s
      in if int k \<le> n \<and> n \<le> 21 then ds @ replicate (nat (n - int k)) CHR ''0''
         else if 0 < n \<and> n \<le> 21 then take (nat n) ds @ ''.'' @ drop (nat n) ds
         else if - 6 < n \<and> n \<le> 0 then ''0.'' @ replicate (nat (- n)) CHR ''0'' @ ds
         else (let e = n - 1;
                   ex = (if e < 0 then ''-'' else ''+'') @ digits \<bar>e\<bar>
               in if k = 1 then ds @ ''e'' @ ex
                  else take 1 ds @ ''.'' @ drop 1 ds @ ''e'' @ ex))"

definition NumberToString :: "jsnum \<Rightarrow> string" where
  "NumberToString x =
     (case x of
        NaN \<Rightarrow> ''NaN''
      | PosInf \<Rightarrow> ''Infinity''
      | NegInf \<Rightarrow> ''-Infinity''
      | NegZero \<Rightarrow> ''0''
      | Fin r \<Rightarrow>
          if r = 0 then ''0''
          else (if r < 0 then ''-'' else []) @
               (if of_int \<lfloor>\<bar>r\<bar>\<rfloor> = \<bar>r\<bar> \<and> \<bar>r\<bar> \<le> 9007199254740992 then digits \<lfloor>\<bar>r\<bar>\<rfloor>
                else (case shortest \<bar>r\<bar> 1 16 of (k, s, n) \<Rightarrow> format_digits k s n)))"

text \<open>
  \<open>StringToNumber\<close> is the conversion of a string to a number: white space around it is
  dropped, the empty string is 0, then a hexadecimal, octal or binary literal without sign,
  or a decimal literal with an optional sign, fraction and exponent, or \<open>Infinity\<close>; anything
  else is not a number. The value is rounded to a double.
\<close>

definition is_digit :: "char \<Rightarrow> bool" where
  "is_digit c = (CHR ''0'' \<le> c \<and> c \<le> CHR ''9'')"

definition digit_value :: "char \<Rightarrow> int" where
  "digit_value c =
     (if is_digit c then int (of_char c) - 48
      else if CHR ''a'' \<le> c \<and> c \<le> CHR ''f'' then int (of_char c) - 87
      else if CHR ''A'' \<le> c \<and> c \<le> CHR ''F'' then int (of_char c) - 55
      else 16)"

definition digits_value :: "int \<Rightarrow> string \<Rightarrow> int" where
  "digits_value b s = foldl (\<lambda>a c. a * b + digit_value c) 0 s"

definition digits_of_base :: "int \<Rightarrow> string \<Rightarrow> bool" where
  "digits_of_base b s = (s \<noteq> [] \<and> list_all (\<lambda>c. digit_value c < b) s)"

definition signed_value :: "bool \<Rightarrow> rat \<Rightarrow> jsnum" where
  "signed_value negative r =
     (if negative then (if r = 0 then NegZero else double_of_rat (- r)) else double_of_rat r)"

definition exponent_part :: "string \<Rightarrow> int option" where
  "exponent_part s =
     (case s of
        [] \<Rightarrow> Some 0
      | c # r \<Rightarrow>
          if c = CHR ''e'' \<or> c = CHR ''E'' then
            (let negative = startsWith r ''-'';
                 ds = (if startsWith r ''-'' \<or> startsWith r ''+'' then tl r else r)
             in if digits_of_base 10 ds
                then Some (if negative then - digits_value 10 ds else digits_value 10 ds)
                else None)
          else None)"

definition decimal_literal :: "string \<Rightarrow> jsnum" where
  "decimal_literal s =
     (let negative = startsWith s ''-'';
          u = (if startsWith s ''-'' \<or> startsWith s ''+'' then tl s else s)
      in if u = ''Infinity'' then (if negative then NegInf else PosInf)
         else (let ip = takeWhile is_digit u;
                   r1 = dropWhile is_digit u;
                   fp = (if startsWith r1 ''.'' then takeWhile is_digit (tl r1) else []);
                   r2 = (if startsWith r1 ''.'' then dropWhile is_digit (tl r1) else r1)
               in if ip = [] \<and> fp = [] then NaN
                  else (case exponent_part r2 of
                          None \<Rightarrow> NaN
                        | Some e \<Rightarrow>
                            signed_value negative
                              (of_int (digits_value 10 (ip @ fp)) * pow10 (e - int (length fp))))))"

definition StringToNumber :: "string \<Rightarrow> jsnum" where
  "StringToNumber str =
     (let s = trim str
      in if s = [] then Fin 0
         else if startsWith s ''0x'' \<or> startsWith s ''0X'' then
           (if digits_of_base 16 (drop 2 s) then double_of_rat (of_int (digits_value 16 (drop 2 s)))
            else NaN)
         else if startsWith s ''0o'' \<or> startsWith s ''0O'' then
           (if digits_of_base 8 (drop 2 s) then double_of_rat (of_int (digits_value 8 (drop 2 s)))
            else NaN)
         else if startsWith s ''0b'' \<or> startsWith s ''0B'' then
           (if digits_of_base 2 (drop 2 s) then double_of_rat (of_int (digits_value 2 (drop 2 s)))
            else NaN)
         else decimal_literal s)"

subsection \<open>Values\<close>

text \<open>
  A value as YAML gives it, and \<open>undefined\<close> for a property that is absent. A mapping is the
  list of its properties in the order of \<open>Object.entries\<close>; its values are never functions,
  and it has no key \<open>__proto__\<close>. \<open>ToString\<close> and \<open>ToNumber\<close> are the conversions of the
  language; \<open>None\<close> is the \<open>TypeError\<close> that a mapping with a property \<open>toString\<close> of its own
  raises (that property hides the inherited method and cannot be called). A list is joined
  with commas, \<open>null\<close> and \<open>undefined\<close> in it giving the empty string.
\<close>

datatype jsval =
    Undefined
  | Null
  | Bool bool
  | Num jsnum
  | Str string
  | Arr "jsval list"
  | Obj "(string \<times> jsval) list"

definition ToBoolean :: "jsval \<Rightarrow> bool" where
  "ToBoolean v =
     (case v of
        Undefined \<Rightarrow> False
      | Null \<Rightarrow> False
      | Bool b \<Rightarrow> b
      | Num x \<Rightarrow> x \<noteq> NaN \<and> x \<noteq> NegZero \<and> x \<noteq> Fin 0
      | Str s \<Rightarrow> s \<noteq> []
      | _ \<Rightarrow> True)"

fun ToString :: "jsval \<Rightarrow> string option"
  and elements :: "jsval list \<Rightarrow> string list option" where
  "ToString Undefined = Some ''undefined''"
| "ToString Null = Some ''null''"
| "ToString (Bool b) = Some (if b then ''true'' else ''false'')"
| "ToString (Num x) = Some (NumberToString x)"
| "ToString (Str s) = Some s"
| "ToString (Arr xs) = map_option (join_with '','') (elements xs)"
| "ToString (Obj kvs) =
     (if ''toString'' \<in> fst ` set kvs then None else Some ''[object Object]'')"
| "elements [] = Some []"
| "elements (x # xs) =
     (case (if x = Undefined \<or> x = Null then Some [] else ToString x) of
        None \<Rightarrow> None
      | Some s \<Rightarrow> map_option ((#) s) (elements xs))"

definition ToNumber :: "jsval \<Rightarrow> jsnum option" where
  "ToNumber v =
     (case v of
        Undefined \<Rightarrow> Some NaN
      | Null \<Rightarrow> Some (Fin 0)
      | Bool b \<Rightarrow> Some (Fin (if b then 1 else 0))
      | Num x \<Rightarrow> Some x
      | Str s \<Rightarrow> Some (StringToNumber s)
      | _ \<Rightarrow> map_option StringToNumber (ToString v))"

text \<open>
  \<open>less_than v y\<close> is \<open>v < y\<close> and \<open>at_least v y\<close> is \<open>v >= y\<close> for a number \<open>y\<close>: the value
  is converted to a number, and both are false when it is not a number. \<open>increment\<close> is the
  value that \<open>v++\<close> stores.
\<close>

definition less_than :: "jsval \<Rightarrow> jsnum \<Rightarrow> bool option" where
  "less_than v y = map_option (\<lambda>x. lessThan_num x y = Some True) (ToNumber v)"

definition at_least :: "jsval \<Rightarrow> jsnum \<Rightarrow> bool option" where
  "at_least v y = map_option (\<lambda>x. lessThan_num x y = Some False) (ToNumber v)"

definition increment :: "jsval \<Rightarrow> jsval option" where
  "increment v = map_option (\<lambda>x. Num (num_succ x)) (ToNumber v)"

subsection \<open>Objects\<close>

text \<open>
  An object is the list of its own properties in the order in which \<open>Object.keys\<close> and
  \<open>Object.entries\<close> give them: the keys that are array indices first, in ascending order, then
  the other keys in the order in which they were created. \<open>put\<close> is the assignment
  \<open>obj[k] = v\<close>, \<open>spread\<close> is \<open>{...a, ...b}\<close>.
\<close>

definition is_array_index :: "string \<Rightarrow> bool" where
  "is_array_index k =
     (k \<noteq> [] \<and> list_all is_digit k \<and> (k = ''0'' \<or> hd k \<noteq> CHR ''0'') \<and>
      digits_value 10 k < 4294967295)"

fun insert_index :: "string \<Rightarrow> 'a \<Rightarrow> (string \<times> 'a) list \<Rightarrow> (string \<times> 'a) list" where
  "insert_index k v [] = [(k, v)]"
| "insert_index k v ((k', v') # r) =
     (if is_array_index k' \<and> digits_value 10 k' < digits_value 10 k
      then (k', v') # insert_index k v r
      else (k, v) # (k', v') # r)"

definition put :: "string \<Rightarrow> 'a \<Rightarrow> (string \<times> 'a) list \<Rightarrow> (string \<times> 'a) list" where
  "put k v obj =
     (if k \<notin> fst ` set obj \<and> is_array_index k then insert_index k v obj
      else AList.update k v obj)"

definition spread :: "(string \<times> 'a) list \<Rightarrow> (string \<times> 'a) list \<Rightarrow> (string \<times> 'a) list" where
  "spread a b = foldl (\<lambda>obj (k, v). put k v obj) [] (a @ b)"

text \<open>
  \<open>Object.keys\<close> gives each key once. A list that stands for an object has one entry for each
  key; \<open>remdups\<close> keeps the definition meaningful on every list.
\<close>

definition object_keys :: "(string \<times> 'a) list \<Rightarrow> string list" where
  "object_keys obj = remdups (map fst obj)"

text \<open>
  \<open>obj[k]\<close> read for its truth value, on an object whose values are strings: a property of
  its own counts when it is a non-empty string, and the names that every object inherits from
  \<open>Object.prototype\<close> count always.
\<close>

definition object_prototype :: "string list" where
  "object_prototype =
     [''constructor'', ''__defineGetter__'', ''__defineSetter__'', ''hasOwnProperty'',
      ''__lookupGetter__'', ''__lookupSetter__'', ''isPrototypeOf'', ''propertyIsEnumerable'',
      ''toString'', ''valueOf'', ''__proto__'', ''toLocaleString'']"

definition has_truthy :: "(string \<times> string) list \<Rightarrow> string \<Rightarrow> bool" where
  "has_truthy obj k =
     (case map_of obj k of Some v \<Rightarrow> v \<noteq> [] | None \<Rightarrow> k \<in> set object_prototype)"

subsection \<open>The configuration object\<close>

text \<open>
  The fields of a model that the loader reads or writes. \<open>m_filters\<close> is \<open>None\<close> when the
  model has no \<open>filters\<close>, otherwise the value of \<open>filters.stripParams\<close>; \<open>m_aliases\<close> and
  \<open>m_macros\<close> are empty when the model has none. The groups are those of the manager. The
  errors are the exceptions that \<open>loadConfig\<close> throws; \<open>TypeError\<close> is the one the language
  raises when a method is called on a value that does not have it.
\<close>

record ModelObject =
  m_cmd :: jsval
  m_cmdStop :: jsval
  m_proxy :: jsval
  m_checkEndpoint :: jsval
  m_aliases :: "string list"
  m_macros :: "(string \<times> jsval) list"
  m_filters :: "jsval option"
  m_metadata :: jsval

record ConfigObject =
  c_healthCheckTimeout :: jsval
  c_startPort :: jsval
  c_macros :: "(string \<times> jsval) list"
  c_models :: "(string \<times> ModelObject) list"
  c_groups :: "(string \<times> GroupConfig) list"
  c_aliases :: "(string \<times> string) list"
  c_preload :: "string list"

datatype config_error =
    TypeError
  | StartPortMustBeGreaterThanOne
  | MacroNameTooLong string
  | MacroNameInvalid string
  | MacroValueTooLong string
  | MacroSelfReference string
  | MacroInvalidType string
  | MacroReserved string
  | DuplicateAlias string string
  | ProxyUsesPortButCmdDoesNot string
  | MacroNotSubstituted string string string
  | UnknownMacro string string string
  | MetadataUnknownMacro string string
  | InvalidProxyURL string
  | DuplicateMember string string
  | MemberInMultipleGroups string string

subsection \<open>Macros\<close>

definition is_macro_name_char :: "char \<Rightarrow> bool" where
  "is_macro_name_char c =
     ((CHR ''a'' \<le> c \<and> c \<le> CHR ''z'') \<or> (CHR ''A'' \<le> c \<and> c \<le> CHR ''Z'') \<or>
      (CHR ''0'' \<le> c \<and> c \<le> CHR ''9'') \<or> c = CHR ''_'' \<or> c = CHR ''-'')"

definition macroNameRegex :: "string \<Rightarrow> bool" where
  "macroNameRegex name = (name \<noteq> [] \<and> list_all is_macro_name_char name)"

definition macroSlug :: "string \<Rightarrow> string" where
  "macroSlug name = ''${'' @ name @ ''}''"

text \<open>
  \<open>macroPatternRegex\<close>, all matches: the names of the macros that occur in a string, from
  left to right. A match is \<open>${\<close>, a longest non-empty run of name characters, and \<open>}\<close>.
\<close>

function macroPatternRegex :: "string \<Rightarrow> string list" where
  "macroPatternRegex [] = []"
| "macroPatternRegex (c # cs) =
     (if startsWith (c # cs) ''${'' \<and> takeWhile is_macro_name_char (tl cs) \<noteq> [] \<and>
         startsWith (dropWhile is_macro_name_char (tl cs)) ''}''
      then takeWhile is_macro_name_char (tl cs) #
           macroPatternRegex (tl (dropWhile is_macro_name_char (tl cs)))
      else macroPatternRegex cs)"
  by pat_completeness auto
termination
proof (relation "measure length")
  fix c :: char and cs :: string
  have "length (tl (dropWhile is_macro_name_char (tl cs))) \<le> length cs"
    by (metis diff_le_self le_trans length_dropWhile_le length_tl)
  then show "(tl (dropWhile is_macro_name_char (tl cs)), c # cs) \<in> measure length"
    by simp
qed simp_all

definition validateMacro :: "string \<Rightarrow> jsval \<Rightarrow> config_error option" where
  "validateMacro name v =
     (if length name \<ge> 64 then Some (MacroNameTooLong name)
      else if \<not> macroNameRegex name then Some (MacroNameInvalid name)
      else (case (case v of
                    Str str \<Rightarrow>
                      if length str \<ge> 1024 then Some (MacroValueTooLong name)
                      else if includes_str str (macroSlug name) then Some (MacroSelfReference name)
                      else None
                  | Num n \<Rightarrow> None
                  | Bool b \<Rightarrow> None
                  | _ \<Rightarrow> Some (MacroInvalidType name)) of
              Some e \<Rightarrow> Some e
            | None \<Rightarrow>
                if name \<in> {''PORT'', ''MODEL_ID''} then Some (MacroReserved name) else None))"

fun validateMacros :: "(string \<times> jsval) list \<Rightarrow> config_error option" where
  "validateMacros [] = None"
| "validateMacros ((name, v) # r) =
     (case validateMacro name v of Some e \<Rightarrow> Some e | None \<Rightarrow> validateMacros r)"

text \<open>
  \<open>macroStr\<close> is \<open>String(macroValue)\<close>. A mapping with a property \<open>constructor\<close> of its own
  does not pass the test \<open>value.constructor === Object\<close> and is returned as it is.
\<close>

fun substituteMacroInValue :: "string \<Rightarrow> jsval \<Rightarrow> string \<Rightarrow> jsval \<Rightarrow> jsval" where
  "substituteMacroInValue macroName macroValue macroStr (Str s) =
     (if s = macroSlug macroName then macroValue
      else if includes_str s (macroSlug macroName)
      then Str (replace_all (macroSlug macroName) macroStr [] s)
      else Str s)"
| "substituteMacroInValue macroName macroValue macroStr (Arr xs) =
     Arr (map (substituteMacroInValue macroName macroValue macroStr) xs)"
| "substituteMacroInValue macroName macroValue macroStr (Obj kvs) =
     (if ''constructor'' \<in> fst ` set kvs then Obj kvs
      else Obj (map (\<lambda>kv. (fst kv, substituteMacroInValue macroName macroValue macroStr (snd kv)))
                  kvs))"
| "substituteMacroInValue macroName macroValue macroStr v = v"

subsection \<open>Aliases\<close>

fun add_aliases ::
  "string \<Rightarrow> string list \<Rightarrow> (string \<times> string) list \<Rightarrow> config_error + (string \<times> string) list" where
  "add_aliases modelName [] al = Inr al"
| "add_aliases modelName (alias # r) al =
     (if has_truthy al alias then Inl (DuplicateAlias alias modelName)
      else add_aliases modelName r (put alias modelName al))"

fun populate_aliases ::
  "(string \<times> ModelObject) list \<Rightarrow> (string \<times> string) list \<Rightarrow>
     config_error + (string \<times> string) list" where
  "populate_aliases [] al = Inr al"
| "populate_aliases ((modelName, modelConfig) # r) al =
     (case add_aliases modelName (m_aliases modelConfig) al of
        Inl e \<Rightarrow> Inl e
      | Inr al' \<Rightarrow> populate_aliases r al')"

subsection \<open>One model\<close>

text \<open>
  The defaults, and the comment lines stripped from the command and, if there is one, from
  the stop command; \<open>split\<close> exists on strings only.
\<close>

definition set_defaults :: "ModelObject \<Rightarrow> ModelObject" where
  "set_defaults mc =
     mc\<lparr>m_proxy := (if \<not> ToBoolean (m_proxy mc) then Str ''http://localhost:${PORT}''
                     else m_proxy mc),
        m_checkEndpoint := (if \<not> ToBoolean (m_checkEndpoint mc) then Str ''/health''
                            else m_checkEndpoint mc),
        m_filters := (case m_filters mc of None \<Rightarrow> Some (Str []) | Some v \<Rightarrow> Some v),
        m_metadata := (if \<not> ToBoolean (m_metadata mc) then Obj [] else m_metadata mc)\<rparr>"

definition strip_command_fields :: "ModelObject \<Rightarrow> config_error + ModelObject" where
  "strip_command_fields mc =
     (case m_cmd mc of
        Str c \<Rightarrow>
          if ToBoolean (m_cmdStop mc)
          then (case m_cmdStop mc of
                  Str s \<Rightarrow> Inr (mc\<lparr>m_cmd := Str (stripComments c), m_cmdStop := Str (stripComments s)\<rparr>)
                | _ \<Rightarrow> Inl TypeError)
          else Inr (mc\<lparr>m_cmd := Str (stripComments c)\<rparr>)
      | _ \<Rightarrow> Inl TypeError)"

text \<open>
  \<open>value.includes('${PORT}')\<close>: a substring test on a string, a membership test on a list,
  a \<open>TypeError\<close> on anything else.
\<close>

definition includes_port :: "jsval \<Rightarrow> bool option" where
  "includes_port v =
     (case v of
        Str s \<Rightarrow> Some (includes_str s ''${PORT}'')
      | Arr xs \<Rightarrow> Some (Str ''${PORT}'' \<in> set xs)
      | _ \<Rightarrow> None)"

text \<open>
\<open>Object.keys(value).length > 0\<close>, on a value that is not \<open>null\<close> or \<open>undefined\<close>.
\<close>

definition has_own_keys :: "jsval \<Rightarrow> bool" where
  "has_own_keys v =
     (case v of Str s \<Rightarrow> s \<noteq> [] | Arr xs \<Rightarrow> xs \<noteq> [] | Obj kvs \<Rightarrow> kvs \<noteq> [] | _ \<Rightarrow> False)"

text \<open>
One round of the substitution loop: one macro, all fields.
\<close>

definition substitute_fields :: "string \<Rightarrow> jsval \<Rightarrow> string \<Rightarrow> ModelObject \<Rightarrow> ModelObject" where
  "substitute_fields macroName macroValue macroStr mc =
     mc\<lparr>m_cmd := substituteMacroInValue macroName macroValue macroStr (m_cmd mc),
        m_cmdStop := (if ToBoolean (m_cmdStop mc)
                      then substituteMacroInValue macroName macroValue macroStr (m_cmdStop mc)
                      else m_cmdStop mc),
        m_proxy := substituteMacroInValue macroName macroValue macroStr (m_proxy mc),
        m_checkEndpoint :=
          substituteMacroInValue macroName macroValue macroStr (m_checkEndpoint mc),
        m_filters :=
          map_option (substituteMacroInValue macroName macroValue macroStr) (m_filters mc),
        m_metadata := (if has_own_keys (m_metadata mc)
                       then substituteMacroInValue macroName macroValue macroStr (m_metadata mc)
                       else m_metadata mc)\<rparr>"

fun substitute_macros :: "(string \<times> jsval) list \<Rightarrow> ModelObject \<Rightarrow> config_error + ModelObject" where
  "substitute_macros [] mc = Inr mc"
| "substitute_macros ((macroName, macroValue) # r) mc =
     (case ToString macroValue of
        None \<Rightarrow> Inl TypeError
      | Some macroStr \<Rightarrow> substitute_macros r (substitute_fields macroName macroValue macroStr mc))"

text \<open>
  The search for macros that were not substituted: \<open>PID\<close> may stay in the stop command,
  every other name is an error, and \<open>match\<close> exists on strings only.
\<close>

fun check_matches :: "string \<Rightarrow> string \<Rightarrow> string list \<Rightarrow> config_error option" where
  "check_matches modelId fieldName [] = None"
| "check_matches modelId fieldName (macroName # r) =
     (if macroName = ''PID'' \<and> fieldName = ''cmdStop'' then check_matches modelId fieldName r
      else if macroName \<in> {''PORT'', ''MODEL_ID''}
      then Some (MacroNotSubstituted macroName modelId fieldName)
      else Some (UnknownMacro macroName modelId fieldName))"

definition check_field :: "string \<Rightarrow> string \<Rightarrow> jsval \<Rightarrow> config_error option" where
  "check_field modelId fieldName fieldValue =
     (if \<not> ToBoolean fieldValue then None
      else (case fieldValue of
              Str s \<Rightarrow> check_matches modelId fieldName (macroPatternRegex s)
            | _ \<Rightarrow> Some TypeError))"

fun check_fields :: "string \<Rightarrow> (string \<times> jsval) list \<Rightarrow> config_error option" where
  "check_fields modelId [] = None"
| "check_fields modelId ((fieldName, fieldValue) # r) =
     (case check_field modelId fieldName fieldValue of
        Some e \<Rightarrow> Some e
      | None \<Rightarrow> check_fields modelId r)"

definition fieldMap :: "ModelObject \<Rightarrow> (string \<times> jsval) list" where
  "fieldMap mc =
     [(''cmd'', m_cmd mc),
      (''cmdStop'', if ToBoolean (m_cmdStop mc) then m_cmdStop mc else Str []),
      (''proxy'', m_proxy mc),
      (''checkEndpoint'', m_checkEndpoint mc),
      (''filters.stripParams'', case m_filters mc of Some v \<Rightarrow> v | None \<Rightarrow> Undefined)]"

fun validateMetadataForUnknownMacros :: "string \<Rightarrow> jsval \<Rightarrow> config_error option"
  and validate_all :: "string \<Rightarrow> jsval list \<Rightarrow> config_error option" where
  "validateMetadataForUnknownMacros modelId (Str s) =
     (case macroPatternRegex s of
        [] \<Rightarrow> None
      | macroName # r \<Rightarrow> Some (MetadataUnknownMacro modelId macroName))"
| "validateMetadataForUnknownMacros modelId (Arr xs) = validate_all modelId xs"
| "validateMetadataForUnknownMacros modelId (Obj kvs) =
     (if ''constructor'' \<in> fst ` set kvs then None else validate_all modelId (map snd kvs))"
| "validateMetadataForUnknownMacros modelId Undefined = None"
| "validateMetadataForUnknownMacros modelId Null = None"
| "validateMetadataForUnknownMacros modelId (Bool b) = None"
| "validateMetadataForUnknownMacros modelId (Num x) = None"
| "validate_all modelId [] = None"
| "validate_all modelId (v # vs) =
     (case validateMetadataForUnknownMacros modelId v of
        Some e \<Rightarrow> Some e
      | None \<Rightarrow> validate_all modelId vs)"

text \<open>
  What follows the decision about \<open>PORT\<close>: the substitution of the merged macros, last
  defined first, the search for macros left in the fields and in the metadata, and the parse of
  the proxy URL. \<open>url_parses\<close> tells of which strings \<open>new URL\<close> makes a URL; it is a
  parameter, and everything below holds for every such function.
\<close>

definition finish_model ::
  "(string \<Rightarrow> bool) \<Rightarrow> string \<Rightarrow> (string \<times> jsval) list \<Rightarrow> ModelObject \<Rightarrow>
     config_error + ModelObject" where
  "finish_model url_parses modelId mergedMacros modelConfig =
     (case substitute_macros (rev mergedMacros) modelConfig of
        Inl e \<Rightarrow> Inl e
      | Inr mc \<Rightarrow>
          (case check_fields modelId (fieldMap mc) of
             Some e \<Rightarrow> Inl e
           | None \<Rightarrow>
               (case (if has_own_keys (m_metadata mc)
                      then validateMetadataForUnknownMacros modelId (m_metadata mc)
                      else None) of
                  Some e \<Rightarrow> Inl e
                | None \<Rightarrow>
                    (case ToString (m_proxy mc) of
                       None \<Rightarrow> Inl (InvalidProxyURL modelId)
                     | Some href \<Rightarrow>
                         if url_parses href then Inr mc else Inl (InvalidProxyURL modelId)))))"

definition mergedMacros_of :: "ConfigObject \<Rightarrow> string \<Rightarrow> ModelObject \<Rightarrow> (string \<times> jsval) list" where
  "mergedMacros_of c modelId modelConfig =
     put ''MODEL_ID'' (Str modelId) (spread (c_macros c) (m_macros modelConfig))"

text \<open>
  The body of the loop for one model. The result is the final model configuration, the value
  bound to \<open>PORT\<close> if one was bound, and \<open>nextPort\<close> as the body leaves it.
\<close>

definition process_model ::
  "(string \<Rightarrow> bool) \<Rightarrow> ConfigObject \<Rightarrow> string \<Rightarrow> ModelObject \<Rightarrow> jsval \<Rightarrow>
     config_error + ModelObject \<times> jsval option \<times> jsval" where
  "process_model url_parses c modelId raw nextPort =
     (case strip_command_fields (set_defaults raw) of
        Inl e \<Rightarrow> Inl e
      | Inr modelConfig \<Rightarrow>
          (case validateMacros (m_macros modelConfig) of
             Some e \<Rightarrow> Inl e
           | None \<Rightarrow>
               (case (includes_port (m_cmd modelConfig), includes_port (m_proxy modelConfig)) of
                  (Some cmdHasPortOriginal, Some proxyHasPortOriginal) \<Rightarrow>
                    if cmdHasPortOriginal \<or> proxyHasPortOriginal
                    then (if \<not> cmdHasPortOriginal \<and> proxyHasPortOriginal
                          then Inl (ProxyUsesPortButCmdDoesNot modelId)
                          else (case increment nextPort of
                                  None \<Rightarrow> Inl TypeError
                                | Some nextPort' \<Rightarrow>
                                    (case finish_model url_parses modelId
                                            (put ''PORT'' nextPort
                                               (mergedMacros_of c modelId modelConfig))
                                            modelConfig of
                                       Inl e \<Rightarrow> Inl e
                                     | Inr final \<Rightarrow> Inr (final, Some nextPort, nextPort'))))
                    else (case finish_model url_parses modelId
                                 (mergedMacros_of c modelId modelConfig) modelConfig of
                            Inl e \<Rightarrow> Inl e
                          | Inr final \<Rightarrow> Inr (final, None, nextPort))
                | _ \<Rightarrow> Inl TypeError)))"

text \<open>
  The loop: \<open>ms\<close> is \<open>this.config.models\<close>, in which each processed model replaces its raw
  entry; \<open>ports\<close> collects, in order, the value bound to \<open>PORT\<close> for each model that got one.
\<close>

fun process_models ::
  "(string \<Rightarrow> bool) \<Rightarrow> ConfigObject \<Rightarrow> string list \<Rightarrow> jsval \<Rightarrow>
     (string \<times> ModelObject) list \<Rightarrow> (string \<times> jsval) list \<Rightarrow>
     config_error + (string \<times> ModelObject) list \<times> (string \<times> jsval) list" where
  "process_models url_parses c [] nextPort ms ports = Inr (ms, ports)"
| "process_models url_parses c (modelId # ids) nextPort ms ports =
     (case map_of ms modelId of
        None \<Rightarrow> process_models url_parses c ids nextPort ms ports
      | Some raw \<Rightarrow>
          (case process_model url_parses c modelId raw nextPort of
             Inl e \<Rightarrow> Inl e
           | Inr (final, None, nextPort') \<Rightarrow>
               process_models url_parses c ids nextPort' (AList.update modelId final ms) ports
           | Inr (final, Some p, nextPort') \<Rightarrow>
               process_models url_parses c ids nextPort' (AList.update modelId final ms)
                 (ports @ [(modelId, p)])))"

subsection \<open>Groups\<close>

definition addDefaultGroupToConfig :: "ConfigObject \<Rightarrow> ConfigObject" where
  "addDefaultGroupToConfig c =
     (let ungrouped =
            (if c_groups c = [] then object_keys (c_models c)
             else filter (\<lambda>modelName. \<not> list_ex (\<lambda>(g, groupConfig). modelName \<in> set (members groupConfig))
                                          (c_groups c))
                    (object_keys (c_models c)));
          defaultGroup = \<lparr>swap = True, exclusive = True, persistent = False,
                          members = sort ungrouped\<rparr>
      in c\<lparr>c_groups := AList.update ''(default)'' defaultGroup (c_groups c)\<rparr>)"

fun check_members ::
  "string \<Rightarrow> string list \<Rightarrow> string list \<Rightarrow> (string \<times> string) list \<Rightarrow>
     config_error + (string \<times> string) list" where
  "check_members groupID [] prevSet memberUsage = Inr memberUsage"
| "check_members groupID (member # r) prevSet memberUsage =
     (if member \<in> set prevSet then Inl (DuplicateMember member groupID)
      else if has_truthy memberUsage member then Inl (MemberInMultipleGroups member groupID)
      else check_members groupID r (member # prevSet) (put member groupID memberUsage))"

fun check_groups ::
  "(string \<times> GroupConfig) list \<Rightarrow> (string \<times> string) list \<Rightarrow> config_error option" where
  "check_groups [] memberUsage = None"
| "check_groups ((groupID, groupConfig) # r) memberUsage =
     (case check_members groupID (members groupConfig) [] memberUsage of
        Inl e \<Rightarrow> Some e
      | Inr memberUsage' \<Rightarrow> check_groups r memberUsage')"

subsection \<open>Preload hooks\<close>

definition realModelName :: "ConfigObject \<Rightarrow> string \<Rightarrow> string option" where
  "realModelName c search =
     (if search \<in> fst ` set (c_models c) \<or> search \<in> set object_prototype then Some search
      else (case map_of (c_aliases c) search of
              Some a \<Rightarrow> if a \<noteq> [] then Some a else None
            | None \<Rightarrow> None))"

definition clean_preload :: "ConfigObject \<Rightarrow> string list" where
  "clean_preload c =
     filter (\<lambda>trimmedModelID. trimmedModelID \<noteq> [] \<and>
               (case realModelName c trimmedModelID of Some n \<Rightarrow> n \<noteq> [] | None \<Rightarrow> False))
       (map trim (c_preload c))"

subsection \<open>loadConfig\<close>

text \<open>
  The result is the loaded configuration together with the bindings of \<open>PORT\<close> made on the
  way, model id and value, in the order in which they were made.
\<close>

definition model_ids :: "ConfigObject \<Rightarrow> string list" where
  "model_ids c = sort (object_keys (c_models c))"

definition loadConfig ::
  "(string \<Rightarrow> bool) \<Rightarrow> ConfigObject \<Rightarrow> config_error + ConfigObject \<times> (string \<times> jsval) list" where
  "loadConfig url_parses yamlData =
     (case less_than (c_healthCheckTimeout yamlData) (Fin 15) of
        None \<Rightarrow> Inl TypeError
      | Some below \<Rightarrow>
          (let c1 = (if below then yamlData\<lparr>c_healthCheckTimeout := Num (Fin 15)\<rparr> else yamlData)
           in case less_than (c_startPort c1) (Fin 1) of
                None \<Rightarrow> Inl TypeError
              | Some True \<Rightarrow> Inl StartPortMustBeGreaterThanOne
              | Some False \<Rightarrow>
                  (case validateMacros (c_macros c1) of
                     Some e \<Rightarrow> Inl e
                   | None \<Rightarrow>
                       (case populate_aliases (c_models c1) [] of
                          Inl e \<Rightarrow> Inl e
                        | Inr al \<Rightarrow>
                            (let c2 = c1\<lparr>c_aliases := al\<rparr>
                             in case process_models url_parses c2 (model_ids c2) (c_startPort c2)
                                       (c_models c2) [] of
                                  Inl e \<Rightarrow> Inl e
                                | Inr (ms, ports) \<Rightarrow>
                                    (let c3 = addDefaultGroupToConfig (c2\<lparr>c_models := ms\<rparr>)
                                     in case check_groups (c_groups c3) [] of
                                          Some e \<Rightarrow> Inl e
                                        | None \<Rightarrow>
                                            Inr (c3\<lparr>c_preload := clean_preload c3\<rparr>, ports)))))))"

section \<open>Properties of the loader\<close>

text \<open>
  The examples load a configuration with \<open>healthCheckTimeout\<close> 3, \<open>startPort\<close> 5800, three
  global macros and three models: \<open>zeta\<close> with \<open>PORT\<close> and other macros in its command and no
  proxy, \<open>beta\<close> with a fixed port in command and proxy, \<open>alpha\<close> with a comment line before a
  command with \<open>PORT\<close>, a stop command and metadata. \<open>demo_urls\<close> are the strings of the
  examples that are URLs. \<open>commands\<close> reads the commands and proxies of a configuration.
\<close>

definition demo_urls :: "string \<Rightarrow> bool" where
  "demo_urls href =
     (href \<in> {''http://localhost:5800'', ''http://localhost:5801'', ''http://localhost:9000'',
               ''http://127.0.0.1:5800'', ''http://127.0.0.1:5801''})"

definition model_object :: "string \<Rightarrow> string \<Rightarrow> ModelObject" where
  "model_object c p =
     \<lparr>m_cmd = Str c, m_cmdStop = Undefined, m_proxy = (if p = [] then Undefined else Str p),
      m_checkEndpoint = Undefined, m_aliases = [], m_macros = [], m_filters = None,
      m_metadata = Undefined\<rparr>"

definition demo_alpha :: ModelObject where
  "demo_alpha =
     (model_object (''# llama ${PORT}'' @ [CHR 0x0A] @ ''srv --port ${PORT}'')
        ''http://127.0.0.1:${PORT}'')
     \<lparr>m_aliases := [''a1''], m_cmdStop := Str ''kill ${PID}'',
      m_metadata := Obj [(''port'', Str ''${PORT}''), (''n'', Arr [Str ''p=${PORT}''])]\<rparr>"

definition demo_yaml :: ConfigObject where
  "demo_yaml =
     \<lparr>c_healthCheckTimeout = Num (Fin 3), c_startPort = Num (Fin 5800),
      c_macros = [(''2'', Bool True), (''7'', Num (Fin (3 / 2))), (''bin'', Str ''srv'')],
      c_models =
        [(''zeta'', model_object ''${bin} --port ${PORT} --id ${MODEL_ID} -t ${7} ${2}'' []),
         (''beta'', model_object ''srv --port 9000'' ''http://localhost:9000''),
         (''alpha'', demo_alpha)],
      c_groups = [], c_aliases = [], c_preload = ['' alpha '', ''nope'', ''a1'', ''toString'']\<rparr>"




definition commands :: "ConfigObject \<Rightarrow> (string \<times> jsval \<times> jsval) list" where
  "commands c = map (\<lambda>(i, m). (i, m_cmd m, m_proxy m)) (c_models c)"

lemma demo_loaded:
  "map_sum id (map_prod (\<lambda>c. (c_healthCheckTimeout c, commands c)) id) (loadConfig demo_urls demo_yaml) =
     Inr ((Num (Fin 15),
           [(''zeta'', Str ''srv --port 5801 --id zeta -t 1.5 true'', Str ''http://localhost:5801''),
            (''beta'', Str ''srv --port 9000'', Str ''http://localhost:9000''),
            (''alpha'', Str ''srv --port 5800'', Str ''http://127.0.0.1:5800'')]),
          [(''alpha'', Num (Fin 5800)), (''zeta'', Num (Fin 5801))])"
  by code_simp

lemma demo_accepted:
  "\<exists>c'. loadConfig demo_urls demo_yaml =
          Inr (c', [(''alpha'', Num (Fin 5800)), (''zeta'', Num (Fin 5801))]) \<and>
        c_healthCheckTimeout c' = Num (Fin 15) \<and>
        commands c' =
          [(''zeta'', Str ''srv --port 5801 --id zeta -t 1.5 true'', Str ''http://localhost:5801''),
           (''beta'', Str ''srv --port 9000'', Str ''http://localhost:9000''),
           (''alpha'', Str ''srv --port 5800'', Str ''http://127.0.0.1:5800'')]"
  using demo_loaded by (cases "loadConfig demo_urls demo_yaml") auto

subsection \<open>The health-check timeout\<close>

lemma hct_addDefaultGroup [simp]:
  "c_healthCheckTimeout (addDefaultGroupToConfig c) = c_healthCheckTimeout c"
  by (simp add: addDefaultGroupToConfig_def Let_def)

lemma models_addDefaultGroup [simp]:
  "c_models (addDefaultGroupToConfig c) = c_models c"
  by (simp add: addDefaultGroupToConfig_def Let_def)

lemma ToNumber_Num [simp]: "ToNumber (Num x) = Some x"
  by (simp add: ToNumber_def)

lemma less_than_15 [simp]: "less_than (Num (Fin 15)) (Fin 15) = Some False"
  by (simp add: less_than_def ToNumber_def lessThan_num_def)

lemma loadConfig_hct:
  assumes "loadConfig u c = Inr (c', ports)"
  shows "less_than (c_healthCheckTimeout c) (Fin 15) \<noteq> None \<and>
         c_healthCheckTimeout c' =
           (if less_than (c_healthCheckTimeout c) (Fin 15) = Some True then Num (Fin 15)
            else c_healthCheckTimeout c)"
  using assms
  by (auto simp: loadConfig_def Let_def
      split: if_splits option.splits sum.splits prod.splits bool.splits)

lemma loadConfig_clamped:
  assumes "less_than (c_healthCheckTimeout c) (Fin 15) = Some True"
  shows "loadConfig u c = loadConfig u (c\<lparr>c_healthCheckTimeout := Num (Fin 15)\<rparr>)"
  using assms by (simp add: loadConfig_def)

lemma at_least_cases:
  assumes "less_than v y \<noteq> None"
  shows "at_least (if less_than v y = Some True then Num y else v) y =
           Some (ToNumber v \<noteq> Some NaN \<and> y \<noteq> NaN)"
  using assms
  by (cases "ToNumber v")
     (auto simp: less_than_def at_least_def ToNumber_def lessThan_num_def split: if_splits)

text \<open>
  C10, as stated, fails in its last part: the loaded \<open>healthCheckTimeout\<close> is not always at
  least 15. The loader compares whatever the YAML gave with 15; for the string \<open>abc\<close> and for
  \<open>.nan\<close> the comparison \<open>< 15\<close> is false, the value is kept, the configuration is accepted,
  and \<open>>= 15\<close> is false of the loaded value.
\<close>

theorem healthCheckTimeout_counterexample:
  "map_sum id (map_prod c_healthCheckTimeout id)
     (loadConfig demo_urls (demo_yaml\<lparr>c_healthCheckTimeout := Str ''abc''\<rparr>)) =
     Inr (Str ''abc'', [(''alpha'', Num (Fin 5800)), (''zeta'', Num (Fin 5801))]) \<and>
   less_than (Str ''abc'') (Fin 15) = Some False \<and>
   at_least (Str ''abc'') (Fin 15) = Some False \<and>
   map_sum id (map_prod c_healthCheckTimeout id)
     (loadConfig demo_urls (demo_yaml\<lparr>c_healthCheckTimeout := Num NaN\<rparr>)) =
     Inr (Num NaN, [(''alpha'', Num (Fin 5800)), (''zeta'', Num (Fin 5801))]) \<and>
   at_least (Num NaN) (Fin 15) = Some False"
  by code_simp

text \<open>
  C10, amended. A \<open>healthCheckTimeout\<close> that compares below 15 never makes \<open>loadConfig\<close>
  fail: the configuration is loaded exactly as the same configuration with the number 15 is,
  and when it is accepted the loaded value is exactly 15. Every other value is kept as it is.
  The loaded value is at least 15 exactly when the configured value converts to a number: it
  is not when the configured value converts to no number.
\<close>

theorem healthCheckTimeout_clamped:
  "(less_than (c_healthCheckTimeout c) (Fin 15) = Some True \<longrightarrow>
      loadConfig u c = loadConfig u (c\<lparr>c_healthCheckTimeout := Num (Fin 15)\<rparr>) \<and>
      (\<forall>c' ports. loadConfig u c = Inr (c', ports) \<longrightarrow> c_healthCheckTimeout c' = Num (Fin 15))) \<and>
   (\<forall>c' ports. loadConfig u c = Inr (c', ports) \<longrightarrow>
      c_healthCheckTimeout c' =
        (if less_than (c_healthCheckTimeout c) (Fin 15) = Some True then Num (Fin 15)
         else c_healthCheckTimeout c) \<and>
      at_least (c_healthCheckTimeout c') (Fin 15) =
        Some (ToNumber (c_healthCheckTimeout c) \<noteq> Some NaN))"
proof (intro conjI impI allI)
  assume "less_than (c_healthCheckTimeout c) (Fin 15) = Some True"
  then show "loadConfig u c = loadConfig u (c\<lparr>c_healthCheckTimeout := Num (Fin 15)\<rparr>)"
    by (rule loadConfig_clamped)
next
  fix c' ports
  assume "less_than (c_healthCheckTimeout c) (Fin 15) = Some True"
    and "loadConfig u c = Inr (c', ports)"
  then show "c_healthCheckTimeout c' = Num (Fin 15)"
    using loadConfig_hct by fastforce
next
  fix c' ports
  assume l: "loadConfig u c = Inr (c', ports)"
  from loadConfig_hct [OF l]
  show "c_healthCheckTimeout c' =
      (if less_than (c_healthCheckTimeout c) (Fin 15) = Some True then Num (Fin 15)
       else c_healthCheckTimeout c)"
    by simp
  from loadConfig_hct [OF l] at_least_cases [of "c_healthCheckTimeout c" "Fin 15"]
  show "at_least (c_healthCheckTimeout c') (Fin 15) =
      Some (ToNumber (c_healthCheckTimeout c) \<noteq> Some NaN)"
    by simp
qed

theorem healthCheckTimeout_clamped_witness:
  "less_than (c_healthCheckTimeout demo_yaml) (Fin 15) = Some True \<and>
   ToNumber (c_healthCheckTimeout demo_yaml) = Some (Fin 3) \<and>
   (\<exists>c'. loadConfig demo_urls demo_yaml =
            Inr (c', [(''alpha'', Num (Fin 5800)), (''zeta'', Num (Fin 5801))]) \<and>
          loadConfig demo_urls (demo_yaml\<lparr>c_healthCheckTimeout := Num (Fin 15)\<rparr>) =
            Inr (c', [(''alpha'', Num (Fin 5800)), (''zeta'', Num (Fin 5801))]) \<and>
          c_healthCheckTimeout c' = Num (Fin 15) \<and>
          at_least (c_healthCheckTimeout c') (Fin 15) = Some True)"
proof -
  have h: "less_than (c_healthCheckTimeout demo_yaml) (Fin 15) = Some True"
    by (simp add: demo_yaml_def less_than_def lessThan_num_def)
  have t: "ToNumber (c_healthCheckTimeout demo_yaml) = Some (Fin 3)"
    by (simp add: demo_yaml_def)
  from demo_accepted obtain c' where
    l: "loadConfig demo_urls demo_yaml =
          Inr (c', [(''alpha'', Num (Fin 5800)), (''zeta'', Num (Fin 5801))])"
    by blast
  note w = healthCheckTimeout_clamped [of demo_yaml demo_urls]
  from w h have e: "loadConfig demo_urls demo_yaml =
      loadConfig demo_urls (demo_yaml\<lparr>c_healthCheckTimeout := Num (Fin 15)\<rparr>)"
    by blast
  from w h l have v: "c_healthCheckTimeout c' = Num (Fin 15)"
    by blast
  from w l have "at_least (c_healthCheckTimeout c') (Fin 15) =
      Some (ToNumber (c_healthCheckTimeout demo_yaml) \<noteq> Some NaN)"
    by blast
  then have a: "at_least (c_healthCheckTimeout c') (Fin 15) = Some True"
    by (simp add: t)
  from h t l e v a show ?thesis by auto
qed

subsection \<open>Ports\<close>

text \<open>
  \<open>cmdHasPortOriginal\<close> and \<open>proxyHasPortOriginal\<close> are the two tests of the loader, on the
  command with its comment lines stripped and on the proxy with its default.
  \<open>port_wanted c i\<close>: the command of model \<open>i\<close> passes the test. \<open>port_sequence v ps\<close>: the
  values \<open>ps\<close> are what \<open>nextPort\<close> holds, one after the other, starting from \<open>v\<close>.
  \<open>mentions_port\<close>: the value is a string in which \<open>PORT\<close> occurs as a macro.
\<close>

definition cmdHasPortOriginal :: "ModelObject \<Rightarrow> bool" where
  "cmdHasPortOriginal raw =
     (case strip_command_fields (set_defaults raw) of
        Inr mc \<Rightarrow> includes_port (m_cmd mc) = Some True
      | Inl e \<Rightarrow> False)"

definition proxyHasPortOriginal :: "ModelObject \<Rightarrow> bool" where
  "proxyHasPortOriginal raw =
     (case strip_command_fields (set_defaults raw) of
        Inr mc \<Rightarrow> includes_port (m_proxy mc) = Some True
      | Inl e \<Rightarrow> False)"

























text \<open>
  \<open>PORT\<close> is the last key of the merged macros, so it is the first to be substituted.
\<close>

lemma set_insert_index: "set (insert_index k v al) = insert (k, v) (set al)"
  by (induction al) (auto split: if_splits)

lemma keys_insert_index [simp]: "fst ` set (insert_index k v al) = insert k (fst ` set al)"
  by (simp add: set_insert_index)

lemma keys_update [simp]: "fst ` set (AList.update k v al) = insert k (fst ` set al)"
  by (induction al) auto

lemma keys_put [simp]: "fst ` set (put k v al) = insert k (fst ` set al)"
  by (simp add: put_def)

lemma keys_foldl_put:
  "fst ` set (foldl (\<lambda>obj (k, v). put k v obj) acc xs) = fst ` set acc \<union> fst ` set xs"
  by (induction xs arbitrary: acc) (auto simp: case_prod_unfold)

lemma keys_spread [simp]: "fst ` set (spread a b) = fst ` set a \<union> fst ` set b"
  by (simp add: spread_def keys_foldl_put image_Un)













end
